theory Spec2Isabelle
  imports Complex_Main
begin

section \<open>Go values used by the receipt processor\<close>

text \<open>
  The program is \<^verbatim>\<open>src/fetch-points.go\<close>. A Go \<^verbatim>\<open>string\<close> is a sequence of bytes, and
  \<^verbatim>\<open>len\<close> counts bytes, so a Go string is a \<^typ>\<open>string\<close> (a list of \<^typ>\<open>char\<close>, each
  one byte). Go's \<^verbatim>\<open>int\<close> is the 64-bit two's complement integer of the amd64 and arm64
  ports: it is an \<^typ>\<open>int\<close> here, with the wrap-around of every arithmetic operation
  written out.
\<close>

definition wrap64 :: "int \<Rightarrow> int" where
  "wrap64 x = (x + 2 ^ 63) mod 2 ^ 64 - 2 ^ 63"

definition add64 :: "int \<Rightarrow> int \<Rightarrow> int" where
  "add64 a b = wrap64 (a + b)"

definition mul64 :: "int \<Rightarrow> int \<Rightarrow> int" where
  "mul64 a b = wrap64 (a * b)"

text \<open>Go's \<^verbatim>\<open>/\<close> and \<^verbatim>\<open>%\<close> on integers truncate towards zero.\<close>

definition quo :: "int \<Rightarrow> int \<Rightarrow> int" where
  "quo a b = sgn a * sgn b * (\<bar>a\<bar> div \<bar>b\<bar>)"

definition rem :: "int \<Rightarrow> int \<Rightarrow> int" where
  "rem a b = sgn a * (\<bar>a\<bar> mod \<bar>b\<bar>)"

text \<open>
  An index expression \<^verbatim>\<open>xs[i]\<close> panics when \<^verbatim>\<open>i\<close> is not below \<^verbatim>\<open>len(xs)\<close>; the panic
  carries the index and the length.
\<close>

datatype panic = IndexOutOfRange nat nat

definition index :: "'a list \<Rightarrow> nat \<Rightarrow> panic + 'a" where
  "index xs i = (if i < length xs then Inr (xs ! i) else Inl (IndexOutOfRange i (length xs)))"

subsection \<open>Package unicode/utf8 and package strings\<close>

type_synonym rune = nat

definition RuneError :: rune where
  "RuneError = 0xFFFD"

definition between :: "nat \<Rightarrow> char \<Rightarrow> nat \<Rightarrow> bool" where
  "between lo c hi = (lo \<le> of_char c \<and> of_char c \<le> hi)"

text \<open>
  \<^verbatim>\<open>utf8.DecodeRuneInString\<close>: the first code point of the string and the number of bytes
  of its encoding; \<^verbatim>\<open>(RuneError, 0)\<close> on the empty string and \<^verbatim>\<open>(RuneError, 1)\<close> on a
  byte that starts no well-formed encoding (overlong forms and surrogates included).
\<close>

fun DecodeRuneInString :: "string \<Rightarrow> rune \<times> nat" where
  "DecodeRuneInString [] = (RuneError, 0)"
| "DecodeRuneInString (c0 # s) =
     (let b0 = (of_char c0 :: nat) in
      if b0 < 0x80 then (b0, 1)
      else if 0xC2 \<le> b0 \<and> b0 \<le> 0xDF then
        (case s of
           c1 # _ \<Rightarrow>
             if between 0x80 c1 0xBF
             then ((b0 mod 0x20) * 0x40 + of_char c1 mod 0x40, 2)
             else (RuneError, 1)
         | _ \<Rightarrow> (RuneError, 1))
      else if 0xE0 \<le> b0 \<and> b0 \<le> 0xEF then
        (case s of
           c1 # c2 # _ \<Rightarrow>
             if between (if b0 = 0xE0 then 0xA0 else 0x80) c1 (if b0 = 0xED then 0x9F else 0xBF)
                \<and> between 0x80 c2 0xBF
             then ((b0 mod 0x10) * 0x1000 + (of_char c1 mod 0x40) * 0x40
                     + of_char c2 mod 0x40, 3)
             else (RuneError, 1)
         | _ \<Rightarrow> (RuneError, 1))
      else if 0xF0 \<le> b0 \<and> b0 \<le> 0xF4 then
        (case s of
           c1 # c2 # c3 # _ \<Rightarrow>
             if between (if b0 = 0xF0 then 0x90 else 0x80) c1 (if b0 = 0xF4 then 0x8F else 0xBF)
                \<and> between 0x80 c2 0xBF \<and> between 0x80 c3 0xBF
             then ((b0 mod 0x08) * 0x40000 + (of_char c1 mod 0x40) * 0x1000
                     + (of_char c2 mod 0x40) * 0x40 + of_char c3 mod 0x40, 4)
             else (RuneError, 1)
         | _ \<Rightarrow> (RuneError, 1))
      else (RuneError, 1))"

lemma DecodeRuneInString_size:
  "s \<noteq> [] \<Longrightarrow> 1 \<le> snd (DecodeRuneInString s) \<and> snd (DecodeRuneInString s) \<le> length s"
  by (cases s) (auto simp: Let_def split: list.splits)

text \<open>
  \<^verbatim>\<open>utf8.DecodeLastRuneInString\<close>: the last code point of the string. It looks back over
  at most three continuation bytes for the byte that starts the encoding, decodes from
  there, and answers \<^verbatim>\<open>(RuneError, 1)\<close> unless that encoding ends where the string ends.
\<close>

definition RuneStart :: "char \<Rightarrow> bool" where
  "RuneStart c = (\<not> between 0x80 c 0xBF)"

definition DecodeLastRuneInString :: "string \<Rightarrow> rune \<times> nat" where
  "DecodeLastRuneInString s =
     (let end = length s in
      if end = 0 then (RuneError, 0)
      else if (of_char (s ! (end - 1)) :: nat) < 0x80 then (of_char (s ! (end - 1)), 1)
      else
        let start =
              (if 2 \<le> end \<and> RuneStart (s ! (end - 2)) then end - 2
               else if 3 \<le> end \<and> RuneStart (s ! (end - 3)) then end - 3
               else if 4 \<le> end \<and> RuneStart (s ! (end - 4)) then end - 4
               else end - 5);
            (r, size) = DecodeRuneInString (drop start s)
        in if start + size = end then (r, size) else (RuneError, 1))"

lemma DecodeLastRuneInString_size:
  assumes "s \<noteq> []"
  shows "1 \<le> snd (DecodeLastRuneInString s) \<and> snd (DecodeLastRuneInString s) \<le> length s"
proof -
  define n where "n = length s"
  define start where
    "start = (if 2 \<le> n \<and> RuneStart (s ! (n - 2)) then n - 2
              else if 3 \<le> n \<and> RuneStart (s ! (n - 3)) then n - 3
              else if 4 \<le> n \<and> RuneStart (s ! (n - 4)) then n - 4
              else n - 5)"
  obtain r k where rk: "DecodeRuneInString (drop start s) = (r, k)"
    by (cases "DecodeRuneInString (drop start s)")
  have n1: "1 \<le> n"
    using assms by (cases s) (simp_all add: n_def)
  have "start < n"
    using n1 by (simp add: start_def)
  then have "drop start s \<noteq> []"
    by (simp add: n_def)
  from DecodeRuneInString_size [OF this] have k1: "1 \<le> k"
    by (simp add: rk)
  have unfolded: "DecodeLastRuneInString s =
      (if (of_char (s ! (n - 1)) :: nat) < 0x80 then (of_char (s ! (n - 1)), 1)
       else if start + k = n then (r, k) else (RuneError, 1))"
    using n1 by (simp add: DecodeLastRuneInString_def Let_def n_def [symmetric]
        start_def [symmetric] rk)
  show ?thesis
    unfolding unfolded using n1 k1 by (auto simp: n_def)
qed

text \<open>
  A \<^verbatim>\<open>for _, ch := range s\<close> loop visits the code points of the string, decoded one
  after the other.
\<close>

function runes :: "string \<Rightarrow> rune list" where
  "runes s = (if s = [] then [] else
                let (r, size) = DecodeRuneInString s in r # runes (drop size s))"
  by pat_completeness auto
termination
proof (relation "measure length")
  show "wf (measure length)"
    by simp
next
  fix s :: string and x :: "rune \<times> nat" and r :: rune and size :: nat
  assume "s \<noteq> []" and "x = DecodeRuneInString s" and "(r, size) = x"
  then show "(drop size s, s) \<in> measure length"
    using DecodeRuneInString_size [of s] by (cases "DecodeRuneInString s") auto
qed

declare runes.simps [simp del]

text \<open>\<^verbatim>\<open>unicode.IsSpace\<close>: the code points with Unicode's White_Space property.\<close>

definition IsSpace :: "rune \<Rightarrow> bool" where
  "IsSpace r =
     (if r \<le> 0xFF then r \<in> {0x09, 0x0A, 0x0B, 0x0C, 0x0D, 0x20, 0x85, 0xA0}
      else r = 0x1680 \<or> (0x2000 \<le> r \<and> r \<le> 0x200A) \<or> r = 0x2028 \<or> r = 0x2029
           \<or> r = 0x202F \<or> r = 0x205F \<or> r = 0x3000)"

text \<open>
  \<^verbatim>\<open>strings.TrimSpace\<close> removes the leading and the trailing white space code points:
  \<^verbatim>\<open>TrimLeftFunc\<close> decodes from the front, \<^verbatim>\<open>TrimRightFunc\<close> from the back.
\<close>

function TrimLeft :: "string \<Rightarrow> string" where
  "TrimLeft s = (if s = [] then [] else
                   let (r, size) = DecodeRuneInString s in
                   if IsSpace r then TrimLeft (drop size s) else s)"
  by pat_completeness auto
termination
proof (relation "measure length")
  show "wf (measure length)"
    by simp
next
  fix s :: string and x :: "rune \<times> nat" and r :: rune and size :: nat
  assume "s \<noteq> []" and "x = DecodeRuneInString s" and "(r, size) = x"
  then show "(drop size s, s) \<in> measure length"
    using DecodeRuneInString_size [of s] by (cases "DecodeRuneInString s") auto
qed

function TrimRight :: "string \<Rightarrow> string" where
  "TrimRight s = (if s = [] then [] else
                    let (r, size) = DecodeLastRuneInString s in
                    if IsSpace r then TrimRight (take (length s - size) s) else s)"
  by pat_completeness auto
termination
proof (relation "measure length")
  show "wf (measure length)"
    by simp
next
  fix s :: string and x :: "rune \<times> nat" and r :: rune and size :: nat
  assume "s \<noteq> []" and "x = DecodeLastRuneInString s" and "(r, size) = x"
  then show "(take (length s - size) s, s) \<in> measure length"
    using DecodeLastRuneInString_size [of s] by (cases "DecodeLastRuneInString s") auto
qed

declare TrimLeft.simps [simp del] TrimRight.simps [simp del]

definition TrimSpace :: "string \<Rightarrow> string" where
  "TrimSpace s = TrimRight (TrimLeft s)"

text \<open>
  \<^verbatim>\<open>strings.Split(s, sep)\<close> for a separator of one byte, which is what both call sites
  pass: the pieces between the occurrences of the separator, one more than there are
  occurrences, so never an empty slice.
\<close>

fun Split :: "string \<Rightarrow> char \<Rightarrow> string list" where
  "Split [] sep = [[]]"
| "Split (c # s) sep =
     (if c = sep then [] # Split s sep
      else case Split s sep of
             piece # pieces \<Rightarrow> (c # piece) # pieces
           | [] \<Rightarrow> [[c]])"

subsection \<open>Package strconv: integers\<close>

datatype NumError = ErrSyntax | ErrRange

definition is_digit :: "char \<Rightarrow> bool" where
  "is_digit c = between 0x30 c 0x39"

definition digit_val :: "char \<Rightarrow> nat" where
  "digit_val c = of_char c - 0x30"

definition digits_value :: "string \<Rightarrow> nat" where
  "digits_value ds = foldl (\<lambda>acc c. acc * 10 + digit_val c) 0 ds"

definition split_sign :: "string \<Rightarrow> bool \<times> string" where
  "split_sign s =
     (case s of
        c # rest \<Rightarrow>
          if c = CHR ''+'' then (False, rest)
          else if c = CHR ''-'' then (True, rest)
          else (False, s)
      | [] \<Rightarrow> (False, s))"

text \<open>
  \<^verbatim>\<open>strconv.Atoi\<close>: an optional sign and one or more decimal digits, nothing else. A
  value outside the 64-bit range is answered by the nearest bound and \<^verbatim>\<open>ErrRange\<close>, a
  malformed string by 0 and \<^verbatim>\<open>ErrSyntax\<close>.
\<close>

definition Atoi :: "string \<Rightarrow> int \<times> NumError option" where
  "Atoi s =
     (let (neg, body) = split_sign s in
      if body \<noteq> [] \<and> list_all is_digit body then
        let n = int (digits_value body); v = (if neg then - n else n) in
        if v < - (2 ^ 63) then (- (2 ^ 63), Some ErrRange)
        else if 2 ^ 63 \<le> v then (2 ^ 63 - 1, Some ErrRange)
        else (v, None)
      else (0, Some ErrSyntax))"

subsection \<open>The type float64\<close>

text \<open>
  A \<^verbatim>\<open>float64\<close> is an IEEE 754 binary64 value. \<open>Fin neg m e\<close> is the finite value
  \<open>\<plusminus> m \<times> 2\<^sup>e\<close> in the format's own terms: \<open>m\<close> is the 53-bit significand and
  \<open>e\<close> the exponent of its last bit, from -1074 (zero and the subnormal values, which
  have \<open>m < 2\<^sup>5\<^sup>2\<close>) to 971. Each finite value has one such form, so two finite values
  are the same float exactly when the forms are equal; the two zeros are \<open>Fin False 0 (-1074)\<close>
  and \<open>Fin True 0 (-1074)\<close>.
\<close>

datatype float64 = Fin bool nat int | Infinity bool | NaN

fun bitlength :: "nat \<Rightarrow> nat" where
  "bitlength n = (if n = 0 then 0 else Suc (bitlength (n div 2)))"

declare bitlength.simps [simp del]

text \<open>The quotient \<open>num / den\<close> rounded to the nearest integer, a tie to the even one.\<close>

definition rne_div :: "nat \<Rightarrow> nat \<Rightarrow> nat" where
  "rne_div num den =
     (let m = num div den; r = num mod den in
      if 2 * r < den then m
      else if den < 2 * r then m + 1
      else if even m then m else m + 1)"

text \<open>
  The exponent of the last significand bit for the positive value \<open>p / q\<close>: the \<open>e\<close>
  with \<open>2\<^sup>5\<^sup>2 \<le> p / (q \<times> 2\<^sup>e) < 2\<^sup>5\<^sup>3\<close>, but not below -1074.
\<close>

definition ulp_exp :: "nat \<Rightarrow> nat \<Rightarrow> int" where
  "ulp_exp p q =
     (let e1 = int (bitlength p) - int (bitlength q) - 53;
          e = (if 2 ^ 53 * (q * 2 ^ nat e1) \<le> p * 2 ^ nat (- e1) then e1 + 1 else e1)
      in max e (- 1074))"

text \<open>
  \<open>round64 neg p q\<close> is the float64 nearest to \<open>\<plusminus> p / q\<close> (round to nearest, ties to
  even, the rounding of every float64 operation and conversion), an infinity when the
  rounded value is beyond the largest finite one.
\<close>

definition round64 :: "bool \<Rightarrow> nat \<Rightarrow> nat \<Rightarrow> float64" where
  "round64 neg p q =
     (if p = 0 then Fin neg 0 (- 1074)
      else if 2 ^ 1024 * q \<le> p then Infinity neg
      else
        let e = ulp_exp p q;
            m = rne_div (p * 2 ^ nat (- e)) (q * 2 ^ nat e)
        in if m = 2 ^ 53 then (if 971 < e + 1 then Infinity neg else Fin neg (2 ^ 52) (e + 1))
           else Fin neg m e)"

text \<open>The conversion \<^verbatim>\<open>float64(n)\<close> of an integer, and of the constant \<^verbatim>\<open>0.2\<close>.\<close>

definition float64_of_int :: "int \<Rightarrow> float64" where
  "float64_of_int n = round64 (n < 0) (nat \<bar>n\<bar>) 1"

definition const_0_2 :: float64 where
  "const_0_2 = round64 False 2 10"

text \<open>
  The conversion \<^verbatim>\<open>int(x)\<close> discards the fraction. For a value that no \<^verbatim>\<open>int\<close> holds
  (NaN and the infinities included) the language leaves the result to the implementation;
  the amd64 port answers the smallest integer, which is what is modelled.
\<close>

definition int_of_float64 :: "float64 \<Rightarrow> int" where
  "int_of_float64 x =
     (case x of
        Fin neg m e \<Rightarrow>
          let t = int ((m * 2 ^ nat e) div 2 ^ nat (- e)); v = (if neg then - t else t) in
          if - (2 ^ 63) \<le> v \<and> v < 2 ^ 63 then v else - (2 ^ 63)
      | _ \<Rightarrow> - (2 ^ 63))"

text \<open>The operators \<^verbatim>\<open>*\<close> and \<^verbatim>\<open>==\<close> on float64.\<close>

fun fmul :: "float64 \<Rightarrow> float64 \<Rightarrow> float64" where
  "fmul (Fin s1 m1 e1) (Fin s2 m2 e2) =
     round64 (s1 \<noteq> s2) (m1 * m2 * 2 ^ nat (e1 + e2)) (2 ^ nat (- (e1 + e2)))"
| "fmul (Fin s1 m1 e1) (Infinity s2) = (if m1 = 0 then NaN else Infinity (s1 \<noteq> s2))"
| "fmul (Infinity s1) (Fin s2 m2 e2) = (if m2 = 0 then NaN else Infinity (s1 \<noteq> s2))"
| "fmul (Infinity s1) (Infinity s2) = Infinity (s1 \<noteq> s2)"
| "fmul NaN y = NaN"
| "fmul x NaN = NaN"

fun feq :: "float64 \<Rightarrow> float64 \<Rightarrow> bool" where
  "feq (Fin s1 m1 e1) (Fin s2 m2 e2) = ((m1 = 0 \<and> m2 = 0) \<or> (s1 = s2 \<and> m1 = m2 \<and> e1 = e2))"
| "feq (Infinity s1) (Infinity s2) = (s1 = s2)"
| "feq x y = False"

text \<open>
  \<^verbatim>\<open>math.Mod(x, y)\<close>: the remainder of \<open>x / y\<close> with the sign of \<open>x\<close> and a magnitude below
  that of \<open>y\<close>; it is exact. NaN when \<open>x\<close> is infinite or \<open>y\<close> is zero or an argument is
  NaN; \<open>x\<close> when \<open>y\<close> is infinite.
\<close>

fun Mod :: "float64 \<Rightarrow> float64 \<Rightarrow> float64" where
  "Mod (Fin s1 m1 e1) (Fin s2 m2 e2) =
     (if m2 = 0 then NaN
      else
        let e0 = min e1 e2;
            r = (m1 * 2 ^ nat (e1 - e0)) mod (m2 * 2 ^ nat (e2 - e0))
        in round64 s1 (r * 2 ^ nat e0) (2 ^ nat (- e0)))"
| "Mod (Fin s1 m1 e1) (Infinity s2) = Fin s1 m1 e1"
| "Mod (Infinity s1) y = NaN"
| "Mod NaN y = NaN"
| "Mod x NaN = NaN"

text \<open>
  \<^verbatim>\<open>math.Ceil(x)\<close>: the least integer value not below \<open>x\<close>, keeping the sign of \<open>x\<close>
  (so a value in \<open>(-1, 0)\<close> gives the negative zero); infinities and NaN are returned
  as they are.
\<close>

fun Ceil :: "float64 \<Rightarrow> float64" where
  "Ceil (Fin False m e) =
     round64 False ((m * 2 ^ nat e + (2 ^ nat (- e) - 1)) div 2 ^ nat (- e)) 1"
| "Ceil (Fin True m e) = round64 True ((m * 2 ^ nat e) div 2 ^ nat (- e)) 1"
| "Ceil (Infinity s) = Infinity s"
| "Ceil NaN = NaN"

subsection \<open>Package strconv: ParseFloat\<close>

text \<open>
  \<^verbatim>\<open>strconv.ParseFloat(s, 64)\<close> is modelled by its documented contract. It accepts,
  ignoring case, \<^verbatim>\<open>NaN\<close> and the optionally signed \<^verbatim>\<open>Inf\<close> and \<^verbatim>\<open>Infinity\<close>, and the
  optionally signed decimal and hexadecimal floating-point literals of the Go language
  (a hexadecimal one needs its \<^verbatim>\<open>p\<close> exponent), in which an underscore may stand
  between two digits or between the base prefix and a digit. The answer is the float64
  nearest to the number written and no error; an infinity and \<^verbatim>\<open>ErrRange\<close> when the
  number is beyond the finite range; zero and \<^verbatim>\<open>ErrSyntax\<close> when the string is not
  well-formed. (The library reads at most five digits of an exponent, which changes the
  result only for strings of several thousand bytes; that is not modelled.)
\<close>

text \<open>The code of a byte, an upper-case ASCII letter counted as its lower-case one.\<close>

definition lower :: "char \<Rightarrow> nat" where
  "lower c = (if between 0x41 c 0x5A then of_char c + 0x20 else of_char c)"

definition is_hex_letter :: "char \<Rightarrow> bool" where
  "is_hex_letter c = (0x61 \<le> lower c \<and> lower c \<le> 0x66)"

definition hex_val :: "char \<Rightarrow> nat" where
  "hex_val c = (if is_digit c then digit_val c else lower c - 0x61 + 10)"

definition hex_value :: "string \<Rightarrow> nat" where
  "hex_value ds = foldl (\<lambda>acc c. acc * 16 + hex_val c) 0 ds"

definition special :: "string \<Rightarrow> float64 option" where
  "special s =
     (let (neg, body) = split_sign s in
      if map lower body = map of_char ''inf'' \<or> map lower body = map of_char ''infinity''
      then Some (Infinity neg)
      else if map lower s = map of_char ''nan'' then Some NaN
      else None)"

datatype saw = SawStart | SawDigit | SawUnderscore | SawOther

fun underscore_scan :: "bool \<Rightarrow> saw \<Rightarrow> string \<Rightarrow> bool" where
  "underscore_scan hex sw [] = (sw \<noteq> SawUnderscore)"
| "underscore_scan hex sw (c # s) =
     (if is_digit c \<or> (hex \<and> is_hex_letter c) then underscore_scan hex SawDigit s
      else if c = CHR ''_'' then (sw = SawDigit \<and> underscore_scan hex SawUnderscore s)
      else if sw = SawUnderscore then False
      else underscore_scan hex SawOther s)"

definition underscoreOK :: "string \<Rightarrow> bool" where
  "underscoreOK s0 =
     (let s = snd (split_sign s0) in
      case s of
        c0 # c1 # rest \<Rightarrow>
          if c0 = CHR ''0'' \<and> lower c1 \<in> of_char ` {CHR ''b'', CHR ''o'', CHR ''x''}
          then underscore_scan (lower c1 = of_char (CHR ''x'')) SawDigit rest
          else underscore_scan False SawStart s
      | _ \<Rightarrow> underscore_scan False SawStart s)"

text \<open>
  The exponent part: the exponent letter, an optional sign and one or more decimal
  digits, up to the end of the string.
\<close>

definition read_exponent :: "char \<Rightarrow> string \<Rightarrow> int option" where
  "read_exponent letter s =
     (case s of
        [] \<Rightarrow> None
      | c # rest \<Rightarrow>
          let (eneg, ds) = split_sign rest in
          if lower c = of_char letter \<and> ds \<noteq> [] \<and> list_all is_digit ds
          then Some (if eneg then - int (digits_value ds) else int (digits_value ds))
          else None)"

text \<open>
  The digits before and after the point (at least one digit in all), and what follows
  them.
\<close>

definition read_mantissa :: "(char \<Rightarrow> bool) \<Rightarrow> string \<Rightarrow> (string \<times> string \<times> string) option" where
  "read_mantissa isd s =
     (let ip = takeWhile isd s; r1 = dropWhile isd s;
          (fp, r2) = (case r1 of
                        c # t \<Rightarrow> if c = CHR ''.'' then (takeWhile isd t, dropWhile isd t)
                                 else ([], r1)
                      | [] \<Rightarrow> ([], r1))
      in if ip = [] \<and> fp = [] then None else Some (ip, fp, r2))"

text \<open>
  The number a literal without sign and underscores stands for, as a fraction \<open>(p, q)\<close>
  with value \<open>p / q\<close>.
\<close>

definition read_decimal :: "string \<Rightarrow> (nat \<times> nat) option" where
  "read_decimal s =
     (case read_mantissa is_digit s of
        None \<Rightarrow> None
      | Some (ip, fp, r) \<Rightarrow>
          (case (if r = [] then Some 0 else read_exponent (CHR ''e'') r) of
             None \<Rightarrow> None
           | Some ex \<Rightarrow>
               let k = ex - int (length fp) in
               Some (digits_value (ip @ fp) * 10 ^ nat k, 10 ^ nat (- k))))"

definition read_hex :: "string \<Rightarrow> (nat \<times> nat) option" where
  "read_hex s =
     (case read_mantissa (\<lambda>c. is_digit c \<or> is_hex_letter c) s of
        None \<Rightarrow> None
      | Some (ip, fp, r) \<Rightarrow>
          (case read_exponent (CHR ''p'') r of
             None \<Rightarrow> None
           | Some ex \<Rightarrow>
               let k = ex - 4 * int (length fp) in
               Some (hex_value (ip @ fp) * 2 ^ nat k, 2 ^ nat (- k))))"

definition read_number :: "string \<Rightarrow> (nat \<times> nat) option" where
  "read_number s =
     (case s of
        c0 # c1 # c2 # rest \<Rightarrow>
          if c0 = CHR ''0'' \<and> lower c1 = of_char (CHR ''x'') then read_hex (c2 # rest)
          else read_decimal s
      | _ \<Rightarrow> read_decimal s)"

text \<open>
  The sign and the fraction of a well-formed literal; \<open>None\<close> for any other string.
\<close>

definition read_literal :: "string \<Rightarrow> (bool \<times> nat \<times> nat) option" where
  "read_literal s =
     (if CHR ''_'' \<in> set s \<and> \<not> underscoreOK s then None
      else
        let (neg, body) = split_sign (filter (\<lambda>c. c \<noteq> CHR ''_'') s) in
        (case read_number body of
           None \<Rightarrow> None
         | Some (p, q) \<Rightarrow> Some (neg, p, q)))"

definition ParseFloat :: "string \<Rightarrow> float64 \<times> NumError option" where
  "ParseFloat s =
     (case special s of
        Some f \<Rightarrow> (f, None)
      | None \<Rightarrow>
          (case read_literal s of
             None \<Rightarrow> (Fin False 0 (- 1074), Some ErrSyntax)
           | Some (neg, p, q) \<Rightarrow>
               (case round64 neg p q of
                  Infinity sg \<Rightarrow> (Infinity sg, Some ErrRange)
                | f \<Rightarrow> (f, None))))"

subsection \<open>Package fmt: the verb %.2f\<close>

definition digit_char :: "nat \<Rightarrow> char" where
  "digit_char d = ''0123456789'' ! d"

fun decimal_digits :: "nat \<Rightarrow> string" where
  "decimal_digits n =
     (if n < 10 then [digit_char n]
      else decimal_digits (n div 10) @ [digit_char (n mod 10)])"

declare decimal_digits.simps [simp del]

text \<open>
  \<^verbatim>\<open>fmt.Sprintf("%.2f", x)\<close>: the value rounded to two decimals (to nearest, a tie to
  even), with a minus sign when the sign bit is set.
\<close>

definition Sprintf_2f :: "float64 \<Rightarrow> string" where
  "Sprintf_2f x =
     (case x of
        NaN \<Rightarrow> ''NaN''
      | Infinity neg \<Rightarrow> (if neg then ''-Inf'' else ''+Inf'')
      | Fin neg m e \<Rightarrow>
          let n = rne_div (m * 100 * 2 ^ nat e) (2 ^ nat (- e)) in
          (if neg then ''-'' else []) @ decimal_digits (n div 100) @ ''.''
            @ [digit_char (n mod 100 div 10), digit_char (n mod 10)])"

section \<open>The receipt processor\<close>

subsection \<open>Receipts\<close>

record Item =
  ShortDescription :: string
  Price :: string

record Receipt =
  Retailer :: string
  Total :: string
  Items :: "Item list"
  PurchaseDate :: string
  PurchaseTime :: string

subsection \<open>calculatePoints\<close>

text \<open>
  \<^verbatim>\<open>countAlphanumeric\<close> ranges over the code points of the string and counts the ASCII
  letters and digits.
\<close>

definition countAlphanumeric :: "string \<Rightarrow> int" where
  "countAlphanumeric s =
     fold (\<lambda>ch count.
             if (0x61 \<le> ch \<and> ch \<le> 0x7A) \<or> (0x41 \<le> ch \<and> ch \<le> 0x5A) \<or> (0x30 \<le> ch \<and> ch \<le> 0x39)
             then add64 count 1 else count)
       (runes s) 0"

text \<open>
  The body of \<^verbatim>\<open>calculatePoints\<close> is seven blocks, each updating the local variable
  \<^verbatim>\<open>points\<close>. Each block is a function from the value of \<^verbatim>\<open>points\<close> before it to the
  value after it; the blocks of rules 6 and 7 index a slice and can panic.

  Rule 1 adds the count of alphanumeric characters of the retailer name.
\<close>

definition rule1 :: "Receipt \<Rightarrow> int \<Rightarrow> int" where
  "rule1 receipt points = add64 points (countAlphanumeric (Retailer receipt))"

text \<open>
  Rule 2: \<^verbatim>\<open>if err == nil && total == float64(int(total)) { points += 50 }\<close>, where
  \<^verbatim>\<open>total, err := strconv.ParseFloat(receipt.Total, 64)\<close>.
\<close>

definition rule2 :: "float64 \<times> NumError option \<Rightarrow> int \<Rightarrow> int" where
  "rule2 parsed points =
     (let (total, err) = parsed in
      if err = None \<and> feq total (float64_of_int (int_of_float64 total))
      then add64 points 50 else points)"

text \<open>
  Rule 3: \<^verbatim>\<open>if math.Mod(total*100, 25) == 0 { points += 25 }\<close>, whatever \<^verbatim>\<open>err\<close> is.
\<close>

definition rule3 :: "float64 \<times> NumError option \<Rightarrow> int \<Rightarrow> int" where
  "rule3 parsed points =
     (let (total, err) = parsed in
      if feq (Mod (fmul total (float64_of_int 100)) (float64_of_int 25)) (float64_of_int 0)
      then add64 points 25 else points)"

text \<open>
  Rule 4: \<^verbatim>\<open>points += len(receipt.Items) / 2 * 5\<close> when there are items, and else
  \<^verbatim>\<open>points = 0\<close>.
\<close>

definition rule4 :: "Receipt \<Rightarrow> int \<Rightarrow> int" where
  "rule4 receipt points =
     (if 0 < length (Items receipt)
      then add64 points (mul64 (quo (int (length (Items receipt))) 2) 5)
      else 0)"

text \<open>Rule 5: the loop over the items.\<close>

fun rule5 :: "Item list \<Rightarrow> int \<Rightarrow> int" where
  "rule5 [] points = points"
| "rule5 (item # items) points =
     (let trimmedLength = int (length (TrimSpace (ShortDescription item))) in
      if rem trimmedLength 3 = 0 then
        (case ParseFloat (Price item) of
           (price, None) \<Rightarrow>
             rule5 items (add64 points (int_of_float64 (Ceil (fmul price const_0_2))))
         | (price, Some err) \<Rightarrow> rule5 items points)
      else rule5 items points)"

text \<open>
  Rule 6: \<^verbatim>\<open>day, err := strconv.Atoi(strings.Split(receipt.PurchaseDate, "-")[2])\<close>.
\<close>

definition rule6 :: "Receipt \<Rightarrow> int \<Rightarrow> panic + int" where
  "rule6 receipt points =
     (case index (Split (PurchaseDate receipt) (CHR ''-'')) 2 of
        Inl p \<Rightarrow> Inl p
      | Inr field \<Rightarrow>
          let (day, err) = Atoi field in
          Inr (if err = None \<and> rem day 2 \<noteq> 0 then add64 points 6 else points))"

text \<open>
  Rule 7: \<^verbatim>\<open>hour, err := strconv.Atoi(strings.Split(receipt.PurchaseTime, ":")[0])\<close>.
\<close>

definition rule7 :: "Receipt \<Rightarrow> int \<Rightarrow> panic + int" where
  "rule7 receipt points =
     (case index (Split (PurchaseTime receipt) (CHR '':'')) 0 of
        Inl p \<Rightarrow> Inl p
      | Inr field \<Rightarrow>
          let (hour, err) = Atoi field in
          Inr (if err = None \<and> 14 \<le> hour \<and> hour < 16 then add64 points 10 else points))"

definition calculatePoints :: "Receipt \<Rightarrow> panic + int" where
  "calculatePoints receipt =
     (let points = 0;
          points = rule1 receipt points;
          parsed = ParseFloat (Total receipt);
          points = rule2 parsed points;
          points = rule3 parsed points;
          points = rule4 receipt points;
          points = rule5 (Items receipt) points
      in case rule6 receipt points of
           Inl p \<Rightarrow> Inl p
         | Inr points \<Rightarrow> rule7 receipt points)"

subsection \<open>processReceipts\<close>

text \<open>
  The handler, from the bound receipt on. The loop over the items checks each item in
  turn; its last statement assigns the formatted price to the loop variable \<^verbatim>\<open>item\<close>,
  which is a copy of the slice element, so the assignment is to a local that the next
  iteration replaces. The loop's answer is the error message of the first item that
  fails a check.
\<close>

fun check_items :: "Item list \<Rightarrow> string option" where
  "check_items [] = None"
| "check_items (item # items) =
     (if ShortDescription item = [] then Some ''Item short description is required''
      else
        (case ParseFloat (Price item) of
           (price, Some err) \<Rightarrow> Some ''Invalid item price''
         | (price, None) \<Rightarrow>
             let item = item\<lparr>Price := Sprintf_2f price\<rparr> in
             check_items items))"

text \<open>
  The checks of the handler in the order of the source; \<open>None\<close> when the receipt
  passes them all.
\<close>

definition validate :: "Receipt \<Rightarrow> string option" where
  "validate receipt =
     (if Retailer receipt = [] then Some ''Retailer name is required''
      else if Total receipt = [] then Some ''Total amount is required''
      else if snd (ParseFloat (Total receipt)) \<noteq> None then Some ''Invalid total amount''
      else if PurchaseDate receipt = [] then Some ''Purchase date is required''
      else if PurchaseTime receipt = [] then Some ''Purchase time is required''
      else if length (Items receipt) = 0 then Some ''Receipt should have at least one item''
      else check_items (Items receipt))"

text \<open>
  What the handler answers: status 400 with an error message, or status 200 after
  storing the points that \<^verbatim>\<open>calculatePoints(receipt)\<close> returned; a panic of
  \<^verbatim>\<open>calculatePoints\<close> leaves the handler.
\<close>

datatype response = BadRequest string | Panicked panic | Stored int

definition processReceipts :: "Receipt \<Rightarrow> response" where
  "processReceipts receipt =
     (case validate receipt of
        Some reason \<Rightarrow> BadRequest reason
      | None \<Rightarrow>
          (case calculatePoints receipt of
             Inl p \<Rightarrow> Panicked p
           | Inr points \<Rightarrow> Stored points))"

subsection \<open>The receipt of the handler's test\<close>

text \<open>The payload of the test case \<^verbatim>\<open>ValidInput\<close> of \<^verbatim>\<open>TestProcessReceipts\<close>.\<close>

definition target_receipt :: Receipt where
  "target_receipt =
     \<lparr>Retailer = ''Target'', Total = ''35.35'',
      Items = [\<lparr>ShortDescription = ''Mountain Dew 12PK'', Price = ''6.49''\<rparr>,
               \<lparr>ShortDescription = ''Emils Cheese Pizza'', Price = ''12.25''\<rparr>,
               \<lparr>ShortDescription = ''Knorr Creamy Chicken'', Price = ''1.26''\<rparr>,
               \<lparr>ShortDescription = ''Doritos Nacho Cheese'', Price = ''3.35''\<rparr>,
               \<lparr>ShortDescription = ''Klarbrunn 12-PK 12 FL OZ'', Price = ''12.00''\<rparr>],
      PurchaseDate = ''2022-01-01'', PurchaseTime = ''13:01''\<rparr>"

text \<open>The same receipt with a single item, whose price has one fractional digit.\<close>

definition gatorade_receipt :: Receipt where
  "gatorade_receipt =
     target_receipt\<lparr>Items := [\<lparr>ShortDescription = ''Gatorade'', Price = ''6.5''\<rparr>]\<rparr>"

text \<open>The same receipt with a single item of negative price.\<close>

definition refund_receipt :: Receipt where
  "refund_receipt =
     target_receipt\<lparr>Items := [\<lparr>ShortDescription = ''Emils Cheese Pizza'', Price = ''-100''\<rparr>]\<rparr>"

section \<open>The specification's wording of some operations\<close>

text \<open>
  The specification lists the validator's checks in order, each with its reason, and
  says that the first violated one is reported. \<open>spec_checks\<close> is that list, each entry
  the violation and its reason; \<open>spec_validate\<close> reports the first violation.
\<close>

definition spec_item_checks :: "Item \<Rightarrow> (bool \<times> string) list" where
  "spec_item_checks item =
     [(ShortDescription item = [], ''Item short description is required''),
      (snd (ParseFloat (Price item)) \<noteq> None, ''Invalid item price'')]"

definition spec_checks :: "Receipt \<Rightarrow> (bool \<times> string) list" where
  "spec_checks receipt =
     [(Retailer receipt = [], ''Retailer name is required''),
      (Total receipt = [], ''Total amount is required''),
      (snd (ParseFloat (Total receipt)) \<noteq> None, ''Invalid total amount''),
      (PurchaseDate receipt = [], ''Purchase date is required''),
      (PurchaseTime receipt = [], ''Purchase time is required''),
      (Items receipt = [], ''Receipt should have at least one item'')]
     @ concat (map spec_item_checks (Items receipt))"

definition spec_validate :: "Receipt \<Rightarrow> string option" where
  "spec_validate receipt = map_option snd (find fst (spec_checks receipt))"

definition reasons :: "string set" where
  "reasons =
     {''Retailer name is required'', ''Total amount is required'', ''Invalid total amount'',
      ''Purchase date is required'', ''Purchase time is required'',
      ''Receipt should have at least one item'', ''Item short description is required'',
      ''Invalid item price''}"

text \<open>
  The specification's condition of rule 3 on the total as written: the literal stands
  for the number \<open>p / q\<close> of dollars, that is \<open>100 \<times> p / q\<close> cents, and this is a whole
  number of cents that is a multiple of 25.
\<close>

definition spec_quarter_multiple :: "string \<Rightarrow> bool" where
  "spec_quarter_multiple s =
     (case read_literal s of
        None \<Rightarrow> False
      | Some (neg, p, q) \<Rightarrow> (100 * p) mod (25 * q) = 0)"

text \<open>
  A finite float64 whose value is an integer multiple of 25.
\<close>

definition multiple_of_25 :: "float64 \<Rightarrow> bool" where
  "multiple_of_25 x =
     (case x of
        Fin neg m e \<Rightarrow> (m * 2 ^ nat e) mod (25 * 2 ^ nat (- e)) = 0
      | _ \<Rightarrow> False)"

section \<open>Evaluation\<close>

text \<open>The equations that compute the library functions on a given string or number.\<close>

lemmas str_eval = between_def is_digit_def digit_val_def digits_value_def split_sign_def lower_def
  is_hex_letter_def hex_val_def hex_value_def special_def underscoreOK_def read_exponent_def
  read_mantissa_def read_decimal_def read_hex_def read_number_def read_literal_def ParseFloat_def

lemmas flt_eval = round64_def ulp_exp_def rne_div_def bitlength.simps

lemmas int_eval = wrap64_def add64_def mul64_def quo_def rem_def

lemmas trim_eval = TrimSpace_def TrimLeft.simps TrimRight.simps DecodeLastRuneInString_def
  IsSpace_def RuneStart_def between_def

lemma const_0_2_eval: "const_0_2 = Fin False 7205759403792794 (- 55)"
  by (simp add: const_0_2_def flt_eval)

lemma float64_of_int_100: "float64_of_int 100 = Fin False 7036874417766400 (- 46)"
  by (simp add: float64_of_int_def flt_eval)

lemma float64_of_int_25: "float64_of_int 25 = Fin False 7036874417766400 (- 48)"
  by (simp add: float64_of_int_def flt_eval)

lemma float64_of_int_0: "float64_of_int 0 = Fin False 0 (- 1074)"
  by (simp add: float64_of_int_def flt_eval)

lemma ParseFloat_35_35: "ParseFloat ''35.35'' = (Fin False 4975070213360845 (- 47), None)"
  by (simp add: str_eval flt_eval)

lemma ParseFloat_12_25: "ParseFloat ''12.25'' = (Fin False 6896136929411072 (- 49), None)"
  by (simp add: str_eval flt_eval)

lemma ParseFloat_12_00: "ParseFloat ''12.00'' = (Fin False 6755399441055744 (- 49), None)"
  by (simp add: str_eval flt_eval)

lemma rule1_Target: "rule1 (r\<lparr>Retailer := ''Target''\<rparr>) 0 = 6"
  by (simp add: rule1_def countAlphanumeric_def runes.simps int_eval)

lemma rule2_35_35: "rule2 (ParseFloat ''35.35'') points = points"
  by (simp add: rule2_def ParseFloat_35_35 int_of_float64_def float64_of_int_def flt_eval)

lemma rule3_35_35: "rule3 (ParseFloat ''35.35'') points = points"
  by (simp add: rule3_def ParseFloat_35_35 float64_of_int_100 float64_of_int_25
      float64_of_int_0 flt_eval)

lemma rule4_target: "rule4 target_receipt 6 = 16"
  by (simp add: rule4_def target_receipt_def int_eval)

lemma points_12_25:
  "int_of_float64 (Ceil (fmul (Fin False 6896136929411072 (- 49)) const_0_2)) = 3"
  by (simp add: const_0_2_eval int_of_float64_def flt_eval)

lemma points_12_00:
  "int_of_float64 (Ceil (fmul (Fin False 6755399441055744 (- 49)) const_0_2)) = 3"
  by (simp add: const_0_2_eval int_of_float64_def flt_eval)

lemma rule5_target: "rule5 (Items target_receipt) 16 = 22"
  by (simp add: target_receipt_def trim_eval rem_def ParseFloat_12_25 ParseFloat_12_00
      points_12_25 points_12_00 add64_def wrap64_def)

lemma rule6_2022_01_01: "rule6 (r\<lparr>PurchaseDate := ''2022-01-01''\<rparr>) 22 = Inr 28"
  by (simp add: rule6_def index_def Atoi_def str_eval int_eval)

lemma rule7_13_01: "rule7 (r\<lparr>PurchaseTime := ''13:01''\<rparr>) points = Inr points"
  by (simp add: rule7_def index_def Atoi_def str_eval int_eval)

lemma target_receipt_fields:
  "target_receipt = target_receipt\<lparr>Retailer := ''Target''\<rparr>"
  "target_receipt = target_receipt\<lparr>PurchaseDate := ''2022-01-01''\<rparr>"
  "target_receipt = target_receipt\<lparr>PurchaseTime := ''13:01''\<rparr>"
  "Total target_receipt = ''35.35''"
  by (simp_all add: target_receipt_def)

section \<open>The claims\<close>

text \<open>
  C7. For the receipt with retailer \<^verbatim>\<open>Target\<close>, total \<^verbatim>\<open>35.35\<close>, the five listed items,
  purchase date \<^verbatim>\<open>2022-01-01\<close> and purchase time \<^verbatim>\<open>13:01\<close>, \<^verbatim>\<open>calculatePoints\<close> returns
  exactly 28: 6 for the retailer name, nothing for the total, 10 for the two pairs of
  items, 3 each for the two items whose trimmed description has a length that is a
  multiple of 3 (18 and 24 bytes), 6 for the odd day and nothing for the hour 13.
\<close>

theorem calculatePoints_target: "calculatePoints target_receipt = Inr 28"
proof -
  have r1: "rule1 target_receipt 0 = 6"
    using rule1_Target [of target_receipt] target_receipt_fields(1) by simp
  have r6: "rule6 target_receipt 22 = Inr 28"
    using rule6_2022_01_01 [of target_receipt] target_receipt_fields(2) by simp
  have r7: "rule7 target_receipt 28 = Inr 28"
    using rule7_13_01 [of target_receipt 28] target_receipt_fields(3) by simp
  show ?thesis
    by (simp add: calculatePoints_def target_receipt_fields(4) r1 rule2_35_35 rule3_35_35
        rule4_target rule5_target r6 r7)
qed


subsection \<open>Rule 4 and the later rules\<close>

lemma Split_not_Nil: "Split s sep \<noteq> []"
  by (induction s) (auto split: list.splits)

lemma index_Split_0: "index (Split s sep) 0 = Inr (hd (Split s sep))"
  using Split_not_Nil [of s sep] by (cases "Split s sep") (simp_all add: index_def)

lemma add64_small: "- (2 ^ 63) \<le> a + b \<Longrightarrow> a + b < 2 ^ 63 \<Longrightarrow> add64 a b = a + b"
  by (simp add: add64_def wrap64_def)

lemma rule7_cases: "rule7 r points = Inr points \<or> rule7 r points = Inr (add64 points 10)"
  by (simp add: rule7_def index_Split_0 split: prod.splits)

lemma rule6_cases:
  "(\<exists>p. rule6 r points = Inl p) \<or> rule6 r points = Inr points
     \<or> rule6 r points = Inr (add64 points 6)"
  by (simp add: rule6_def split: prod.splits sum.splits)

lemma calculatePoints_no_items:
  "Items r = [] \<Longrightarrow>
     calculatePoints r = (case rule6 r 0 of Inl p \<Rightarrow> Inl p | Inr points \<Rightarrow> rule7 r points)"
  by (simp add: calculatePoints_def rule4_def)

text \<open>
  C1 (the claim: a receipt without items scores 0, whatever the retailer-name,
  round-dollar, quarter-multiple, odd-day and afternoon rules contribute). What the
  code does on the test receipt without its items: the statement \<^verbatim>\<open>points = 0\<close> of rule
  4 discards the points of rules 1 to 3, but rules 6 and 7 run after it and still add;
  the day 01 is odd, and the score returned is 6, not 0.
\<close>

theorem empty_items_scores_six:
  "Items (target_receipt\<lparr>Items := []\<rparr>) = []
     \<and> calculatePoints (target_receipt\<lparr>Items := []\<rparr>) = Inr 6"
proof -
  have "rule6 (target_receipt\<lparr>Items := []\<rparr>) 0 = Inr 6"
    by (simp add: rule6_def target_receipt_def index_def Atoi_def str_eval int_eval)
  moreover have "rule7 (target_receipt\<lparr>Items := []\<rparr>) 6 = Inr 6"
    by (simp add: rule7_def target_receipt_def index_def Atoi_def str_eval int_eval)
  ultimately show ?thesis
    by (simp add: calculatePoints_no_items)
qed

text \<open>
  The extent of this: on any receipt without items the code returns what rules 6 and 7
  make of 0 points, so that a score it returns is 0, 6, 10 or 16.
\<close>

lemma empty_items_score:
  assumes "Items r = []"
  shows "calculatePoints r = (case rule6 r 0 of Inl p \<Rightarrow> Inl p | Inr points \<Rightarrow> rule7 r points)
           \<and> (\<forall>p. calculatePoints r = Inr p \<longrightarrow> p \<in> {0, 6, 10, 16})"
proof -
  have eq: "calculatePoints r = (case rule6 r 0 of Inl p \<Rightarrow> Inl p | Inr points \<Rightarrow> rule7 r points)"
    using assms by (rule calculatePoints_no_items)
  have "p \<in> {0, 6, 10, 16}" if "calculatePoints r = Inr p" for p
  proof -
    from that eq obtain q where q: "rule6 r 0 = Inr q" and p: "rule7 r q = Inr p"
      by (cases "rule6 r 0") simp_all
    from q rule6_cases [of r 0] have "q = 0 \<or> q = 6"
      by (auto simp: add64_def wrap64_def)
    moreover from p rule7_cases [of r q] have "p = q \<or> p = add64 q 10"
      by auto
    ultimately show ?thesis
      by (auto simp: add64_def wrap64_def)
  qed
  with eq show ?thesis
    by blast
qed

text \<open>
  C2 (the claim: a purchase date with fewer than three dash-separated fields does not
  crash \<^verbatim>\<open>calculatePoints\<close>). What the code does: the index expression \<^verbatim>\<open>[2]\<close> on the
  result of \<^verbatim>\<open>strings.Split\<close> panics, and no score is returned, whatever the other
  rules contributed.
\<close>

theorem short_date_panics:
  assumes "length (Split (PurchaseDate r) (CHR ''-'')) < 3"
  shows "calculatePoints r = Inl (IndexOutOfRange 2 (length (Split (PurchaseDate r) (CHR ''-''))))"
  using assms by (simp add: calculatePoints_def rule6_def index_def Let_def)

theorem short_date_panics_witness:
  "length (Split (PurchaseDate (target_receipt\<lparr>PurchaseDate := ''2022-01''\<rparr>)) (CHR ''-'')) < 3
     \<and> calculatePoints (target_receipt\<lparr>PurchaseDate := ''2022-01''\<rparr>) = Inl (IndexOutOfRange 2 2)"
proof -
  have short:
    "length (Split (PurchaseDate (target_receipt\<lparr>PurchaseDate := ''2022-01''\<rparr>)) (CHR ''-'')) < 3"
    by simp
  show ?thesis
    using short short_date_panics [OF short] by simp
qed


subsection \<open>Rules 2 and 3 on a total that does not parse\<close>

lemma ParseFloat_ErrSyntax:
  "snd (ParseFloat s) = Some ErrSyntax \<Longrightarrow> fst (ParseFloat s) = Fin False 0 (- 1074)"
  by (auto simp: ParseFloat_def split: option.splits prod.splits float64.splits)

lemma ParseFloat_ErrRange:
  "snd (ParseFloat s) = Some ErrRange \<Longrightarrow> \<exists>sg. fst (ParseFloat s) = Infinity sg"
  by (auto simp: ParseFloat_def split: option.splits prod.splits float64.splits)

lemma rule3_zero: "rule3 (Fin False 0 (- 1074), err) points = add64 points 25"
  by (simp add: rule3_def float64_of_int_100 float64_of_int_25 float64_of_int_0 round64_def)

lemma rule3_Infinity: "rule3 (Infinity sg, err) points = points"
  by (simp add: rule3_def float64_of_int_100 float64_of_int_25 float64_of_int_0)

lemma rule2_error: "rule2 (x, Some e) points = points"
  by (simp add: rule2_def)

lemma ParseFloat_1e309: "ParseFloat ''1e309'' = (Infinity False, Some ErrRange)"
  by (simp add: str_eval flt_eval)

lemma ParseFloat_abc: "ParseFloat ''abc'' = (Fin False 0 (- 1074), Some ErrSyntax)"
  by (simp add: str_eval)

text \<open>
  C10 (as stated: whenever the total does not parse, rule 3 still adds 25 points
  because the total is then 0). The total \<^verbatim>\<open>1e309\<close> is well-formed but beyond the
  float64 range: \<^verbatim>\<open>ParseFloat\<close> reports an error and answers an infinity, not 0, and rule
  3 adds nothing to the 6 points of rule 1.
\<close>

theorem unparsed_total_counterexample:
  "snd (ParseFloat (Total (target_receipt\<lparr>Total := ''1e309''\<rparr>))) \<noteq> None
     \<and> rule3 (ParseFloat (Total (target_receipt\<lparr>Total := ''1e309''\<rparr>))) 6 = 6"
  by (simp add: ParseFloat_1e309 rule3_Infinity)

text \<open>
  C10 (amended). When the total is not well-formed (\<^verbatim>\<open>ParseFloat\<close> reports a syntax
  error) rule 2 adds nothing and rule 3 adds 25 points, the total being 0; when the
  total is well-formed but out of range (a range error), the total is an infinity and
  neither rule adds points.
\<close>

theorem unparsed_total:
  "(snd (ParseFloat (Total r)) = Some ErrSyntax \<longrightarrow>
      rule2 (ParseFloat (Total r)) points = points
        \<and> rule3 (ParseFloat (Total r)) points = add64 points 25)
   \<and> (snd (ParseFloat (Total r)) = Some ErrRange \<longrightarrow>
      rule2 (ParseFloat (Total r)) points = points
        \<and> rule3 (ParseFloat (Total r)) points = points)"
proof (intro conjI impI)
  assume syn: "snd (ParseFloat (Total r)) = Some ErrSyntax"
  then have pf: "ParseFloat (Total r) = (Fin False 0 (- 1074), Some ErrSyntax)"
    using ParseFloat_ErrSyntax [of "Total r"] by (cases "ParseFloat (Total r)") simp
  show "rule2 (ParseFloat (Total r)) points = points"
    by (simp add: pf rule2_error)
  show "rule3 (ParseFloat (Total r)) points = add64 points 25"
    by (simp add: pf rule3_zero)
next
  assume rng: "snd (ParseFloat (Total r)) = Some ErrRange"
  then obtain sg where pf: "ParseFloat (Total r) = (Infinity sg, Some ErrRange)"
    using ParseFloat_ErrRange [of "Total r"] by (cases "ParseFloat (Total r)") auto
  show "rule2 (ParseFloat (Total r)) points = points"
    by (simp add: pf rule2_error)
  show "rule3 (ParseFloat (Total r)) points = points"
    by (simp add: pf rule3_Infinity)
qed

theorem unparsed_total_witness:
  "snd (ParseFloat (Total (target_receipt\<lparr>Total := ''abc''\<rparr>))) = Some ErrSyntax
     \<and> rule2 (ParseFloat (Total (target_receipt\<lparr>Total := ''abc''\<rparr>))) 6 = 6
     \<and> rule3 (ParseFloat (Total (target_receipt\<lparr>Total := ''abc''\<rparr>))) 6 = 31
     \<and> snd (ParseFloat (Total (target_receipt\<lparr>Total := ''1e309''\<rparr>))) = Some ErrRange
     \<and> rule2 (ParseFloat (Total (target_receipt\<lparr>Total := ''1e309''\<rparr>))) 6 = 6
     \<and> rule3 (ParseFloat (Total (target_receipt\<lparr>Total := ''1e309''\<rparr>))) 6 = 6"
  using unparsed_total [of "target_receipt\<lparr>Total := ''abc''\<rparr>" 6]
    unparsed_total [of "target_receipt\<lparr>Total := ''1e309''\<rparr>" 6]
  by (simp add: ParseFloat_abc ParseFloat_1e309 add64_def wrap64_def)

subsection \<open>The validator\<close>

lemma check_items_spec:
  "check_items items = map_option snd (find fst (concat (map spec_item_checks items)))"
  by (induction items) (auto simp: spec_item_checks_def split: prod.splits option.splits)

text \<open>
  C8. Validation applies its checks in the stated order and reports the first one
  violated: \<open>validate\<close> is \<open>spec_validate\<close>, the reason of the first violated entry of the
  specification's list. Every reason of the list, and so every reason a rejection
  carries, is one of the eight fixed strings.
\<close>

theorem validate_order:
  "validate r = spec_validate r \<and> snd ` set (spec_checks r) \<subseteq> reasons \<and> card reasons = 8
     \<and> (\<forall>reason. validate r = Some reason \<longrightarrow> reason \<in> reasons)"
proof -
  have eq: "validate r = spec_validate r"
    by (simp add: validate_def spec_validate_def spec_checks_def check_items_spec)
  have sub: "snd ` set (spec_checks r) \<subseteq> reasons"
    by (auto simp: spec_checks_def spec_item_checks_def reasons_def)
  have eight: "card reasons = 8"
    by (simp add: reasons_def)
  have "reason \<in> reasons" if "validate r = Some reason" for reason
  proof -
    from that eq obtain c where "find fst (spec_checks r) = Some c" and "snd c = reason"
      by (auto simp: spec_validate_def)
    then have "c \<in> set (spec_checks r)"
      by (auto simp: find_Some_iff)
    with sub \<open>snd c = reason\<close> show ?thesis
      by auto
  qed
  with eq sub eight show ?thesis
    by blast
qed

text \<open>
  The receipt of the test case \<^verbatim>\<open>InvalidInput\<close>: the total, the date and the items are
  missing, and the first of these in the order of the checks is reported, as the test
  expects.
\<close>

theorem validate_order_witness:
  "validate \<lparr>Retailer = ''Target'', Total = [], Items = [], PurchaseDate = [],
      PurchaseTime = ''13:01''\<rparr> = Some ''Total amount is required''
   \<and> ''Total amount is required'' \<in> reasons"
proof -
  let ?r = "\<lparr>Retailer = ''Target'', Total = [], Items = [], PurchaseDate = [],
      PurchaseTime = ''13:01''\<rparr>"
  have v: "validate ?r = Some ''Total amount is required''"
    by (simp add: validate_def)
  with validate_order [of ?r] show ?thesis
    by blast
qed

lemma first_bad_Cons:
  "(\<exists>pre item post. x # xs = pre @ item # post \<and> (\<forall>i\<in>set pre. ok i) \<and> bad item) \<longleftrightarrow>
     bad x \<or> (ok x \<and> (\<exists>pre item post. xs = pre @ item # post \<and> (\<forall>i\<in>set pre. ok i) \<and> bad item))"
  (is "?L \<longleftrightarrow> ?R")
proof
  assume ?L
  then obtain pre item post
    where split: "x # xs = pre @ item # post" and ok: "\<forall>i\<in>set pre. ok i" and bad: "bad item"
    by blast
  show ?R
  proof (cases pre)
    case Nil
    with split bad show ?thesis
      by simp
  next
    case (Cons y pre')
    with split ok have "ok x" and "xs = pre' @ item # post" and "\<forall>i\<in>set pre'. ok i"
      by simp_all
    with bad show ?thesis
      by blast
  qed
next
  assume ?R
  then show ?L
  proof
    assume "bad x"
    then have "x # xs = [] @ x # xs \<and> (\<forall>i\<in>set []. ok i) \<and> bad x"
      by simp
    then show ?L
      by blast
  next
    assume "ok x \<and> (\<exists>pre item post. xs = pre @ item # post \<and> (\<forall>i\<in>set pre. ok i) \<and> bad item)"
    then obtain pre item post
      where "ok x" and "xs = pre @ item # post" and "\<forall>i\<in>set pre. ok i" and "bad item"
      by blast
    then have "x # xs = (x # pre) @ item # post \<and> (\<forall>i\<in>set (x # pre). ok i) \<and> bad item"
      by simp
    then show ?L
      by blast
  qed
qed

lemma check_items_price:
  "check_items items = Some ''Invalid item price'' \<longleftrightarrow>
     (\<exists>pre item post. items = pre @ item # post
        \<and> (\<forall>i\<in>set pre. ShortDescription i \<noteq> [] \<and> snd (ParseFloat (Price i)) = None)
        \<and> (ShortDescription item \<noteq> [] \<and> snd (ParseFloat (Price item)) \<noteq> None))"
proof (induction items)
  case Nil
  then show ?case by simp
next
  case (Cons x xs)
  show ?case
    unfolding first_bad_Cons
    using Cons.IH by (cases "ParseFloat (Price x)") auto
qed

lemma ParseFloat_neg_35_35: "ParseFloat ''-35.35'' = (Fin True 4975070213360845 (- 47), None)"
  by (simp add: str_eval flt_eval)

lemma ParseFloat_neg_6_49: "ParseFloat ''-6.49'' = (Fin True 7307090395408630 (- 50), None)"
  by (simp add: str_eval flt_eval)

text \<open>
  C4 (as stated: a total or an item price that parses as a negative number is rejected).
  The test receipt with the total \<^verbatim>\<open>-35.35\<close> and one item of price \<^verbatim>\<open>-6.49\<close> passes every
  check: both strings parse, and the sign of the number is not looked at.
\<close>

theorem negative_numbers_counterexample:
  "validate (target_receipt\<lparr>Total := ''-35.35'',
      Items := [\<lparr>ShortDescription = ''Mountain Dew 12PK'', Price = ''-6.49''\<rparr>]\<rparr>) = None"
  by (simp add: validate_def target_receipt_def ParseFloat_neg_35_35 ParseFloat_neg_6_49)

text \<open>
  C4 (amended). Validation rejects with \<^verbatim>\<open>Invalid total amount\<close> exactly when the
  retailer and the total are not empty and \<^verbatim>\<open>ParseFloat\<close> reports an error on the total;
  it rejects with \<^verbatim>\<open>Invalid item price\<close> exactly when the checks before the items pass
  and the first item that fails a check has a description and a price on which
  \<^verbatim>\<open>ParseFloat\<close> reports an error. A negative number is a number that parses.
\<close>

theorem invalid_number_reasons:
  "(validate r = Some ''Invalid total amount'' \<longleftrightarrow>
      Retailer r \<noteq> [] \<and> Total r \<noteq> [] \<and> snd (ParseFloat (Total r)) \<noteq> None)
   \<and> (validate r = Some ''Invalid item price'' \<longleftrightarrow>
      Retailer r \<noteq> [] \<and> Total r \<noteq> [] \<and> snd (ParseFloat (Total r)) = None
      \<and> PurchaseDate r \<noteq> [] \<and> PurchaseTime r \<noteq> []
      \<and> (\<exists>pre item post. Items r = pre @ item # post
            \<and> (\<forall>i\<in>set pre. ShortDescription i \<noteq> [] \<and> snd (ParseFloat (Price i)) = None)
            \<and> (ShortDescription item \<noteq> [] \<and> snd (ParseFloat (Price item)) \<noteq> None)))"
proof (intro conjI)
  have no_total: "check_items items \<noteq> Some ''Invalid total amount''" for items
    by (induction items) (auto split: prod.splits option.splits)
  show "validate r = Some ''Invalid total amount'' \<longleftrightarrow>
      Retailer r \<noteq> [] \<and> Total r \<noteq> [] \<and> snd (ParseFloat (Total r)) \<noteq> None"
    using no_total [of "Items r"] by (auto simp: validate_def)
  show "validate r = Some ''Invalid item price'' \<longleftrightarrow>
      Retailer r \<noteq> [] \<and> Total r \<noteq> [] \<and> snd (ParseFloat (Total r)) = None
      \<and> PurchaseDate r \<noteq> [] \<and> PurchaseTime r \<noteq> []
      \<and> (\<exists>pre item post. Items r = pre @ item # post
            \<and> (\<forall>i\<in>set pre. ShortDescription i \<noteq> [] \<and> snd (ParseFloat (Price i)) = None)
            \<and> (ShortDescription item \<noteq> [] \<and> snd (ParseFloat (Price item)) \<noteq> None))"
    unfolding check_items_price [symmetric]
    by (auto simp: validate_def)
qed

theorem invalid_number_reasons_witness:
  "validate (target_receipt\<lparr>Total := ''abc''\<rparr>) = Some ''Invalid total amount''
   \<and> validate (target_receipt\<lparr>Items :=
        [\<lparr>ShortDescription = ''Mountain Dew 12PK'', Price = ''abc''\<rparr>]\<rparr>) = Some ''Invalid item price''"
proof -
  let ?bad = "\<lparr>ShortDescription = ''Mountain Dew 12PK'', Price = ''abc''\<rparr>"
  have "Items (target_receipt\<lparr>Items := [?bad]\<rparr>) = [] @ ?bad # []"
    by simp
  then have "\<exists>pre item post. Items (target_receipt\<lparr>Items := [?bad]\<rparr>) = pre @ item # post
       \<and> (\<forall>i\<in>set pre. ShortDescription i \<noteq> [] \<and> snd (ParseFloat (Price i)) = None)
       \<and> (ShortDescription item \<noteq> [] \<and> snd (ParseFloat (Price item)) \<noteq> None)"
    by (intro exI [of _ "[]"] exI [of _ ?bad]) (simp add: ParseFloat_abc)
  then show ?thesis
    using invalid_number_reasons [of "target_receipt\<lparr>Total := ''abc''\<rparr>"]
      invalid_number_reasons [of "target_receipt\<lparr>Items := [?bad]\<rparr>"]
    by (simp add: target_receipt_def ParseFloat_abc ParseFloat_35_35)
qed


subsection \<open>Rule 5\<close>

lemma rule5_append: "rule5 (xs @ ys) points = rule5 ys (rule5 xs points)"
  by (induction xs arbitrary: points) (auto simp: Let_def split: prod.splits option.splits)

lemma rem_length: "rem (int n) 3 = 0 \<longleftrightarrow> n mod 3 = 0"
proof (cases "n = 0")
  case True
  then show ?thesis
    by (simp add: rem_def)
next
  case False
  then have "rem (int n) 3 = int n mod 3"
    by (simp add: rem_def)
  also have "\<dots> = int (n mod 3)"
    by (simp add: zmod_int)
  finally show ?thesis
    by simp
qed

lemma TrimLeft_spaces: "list_all IsSpace (runes s) \<Longrightarrow> TrimLeft s = []"
proof (induction s rule: TrimLeft.induct)
  case (1 s)
  show ?case
  proof (cases "s = []")
    case True
    then show ?thesis
      by (simp add: TrimLeft.simps)
  next
    case False
    obtain r size where d: "DecodeRuneInString s = (r, size)"
      by (cases "DecodeRuneInString s")
    from False d "1.prems" have sp: "IsSpace r" and rest: "list_all IsSpace (runes (drop size s))"
      by (simp_all add: runes.simps [of s])
    from "1.IH" [OF False d [symmetric] refl sp rest] have "TrimLeft (drop size s) = []" .
    with False d sp show ?thesis
      by (simp add: TrimLeft.simps [of s])
  qed
qed

lemma TrimSpace_spaces: "list_all IsSpace (runes s) \<Longrightarrow> TrimSpace s = []"
  by (simp add: TrimSpace_def TrimLeft_spaces TrimRight.simps)

lemma ParseFloat_5_00: "ParseFloat ''5.00'' = (Fin False 5629499534213120 (- 50), None)"
  by (simp add: str_eval flt_eval)

lemma points_5_00:
  "int_of_float64 (Ceil (fmul (Fin False 5629499534213120 (- 50)) const_0_2)) = 1"
  by (simp add: const_0_2_eval int_of_float64_def flt_eval)

text \<open>
  C6 (as stated: an item whose description is entirely white space contributes no
  rule-5 points). An item with the description of three blanks and the price \<^verbatim>\<open>5.00\<close>
  earns 1 point: the trimmed length is 0, and \<^verbatim>\<open>0 % 3 == 0\<close>.
\<close>

theorem blank_description_counterexample:
  "list_all IsSpace (runes ''   '')
     \<and> rule5 [\<lparr>ShortDescription = ''   '', Price = ''5.00''\<rparr>] 0 = 1"
  by (simp add: runes.simps IsSpace_def trim_eval rem_def ParseFloat_5_00 points_5_00
      add64_def wrap64_def)

text \<open>
  C6 (amended). For each item, wherever it stands in the sequence, whose price parses
  and whose description, with leading and trailing white space removed, has a length
  in bytes that is a multiple of 3, zero included (as it is when the description is
  white space only), rule 5 adds \<^verbatim>\<open>int(math.Ceil(price * 0.2))\<close>, computed in float64,
  to the points.
\<close>

theorem rule5_adds:
  assumes "ParseFloat (Price item) = (price, None)"
    and "length (TrimSpace (ShortDescription item)) mod 3 = 0
           \<or> list_all IsSpace (runes (ShortDescription item))"
  shows "rule5 (pre @ item # post) points =
           rule5 post (add64 (rule5 pre points) (int_of_float64 (Ceil (fmul price const_0_2))))"
proof -
  from assms(2) have "length (TrimSpace (ShortDescription item)) mod 3 = 0"
    by (auto simp: TrimSpace_spaces)
  then have "rem (int (length (TrimSpace (ShortDescription item)))) 3 = 0"
    by (simp add: rem_length)
  then show ?thesis
    using assms(1) by (simp add: rule5_append)
qed

theorem rule5_adds_witness:
  "ParseFloat (Price \<lparr>ShortDescription = ''Emils Cheese Pizza'', Price = ''12.25''\<rparr>)
     = (Fin False 6896136929411072 (- 49), None)
   \<and> length (TrimSpace (ShortDescription
        \<lparr>ShortDescription = ''Emils Cheese Pizza'', Price = ''12.25''\<rparr>)) mod 3 = 0
   \<and> rule5 ([] @ \<lparr>ShortDescription = ''Emils Cheese Pizza'', Price = ''12.25''\<rparr> # []) 16 = 19"
proof -
  let ?item = "\<lparr>ShortDescription = ''Emils Cheese Pizza'', Price = ''12.25''\<rparr>"
  have p: "ParseFloat (Price ?item) = (Fin False 6896136929411072 (- 49), None)"
    by (simp add: ParseFloat_12_25)
  have l: "length (TrimSpace (ShortDescription ?item)) mod 3 = 0"
    by (simp add: trim_eval)
  from l have l': "length (TrimSpace (ShortDescription ?item)) mod 3 = 0
      \<or> list_all IsSpace (runes (ShortDescription ?item))"
    by (rule disjI1)
  show ?thesis
    using p l rule5_adds [OF p l', of "[]" "[]" 16]
    by (simp add: points_12_25 add64_def wrap64_def)
qed


subsection \<open>The price text that reaches calculatePoints\<close>

lemma ParseFloat_6_5: "ParseFloat ''6.5'' = (Fin False 7318349394477056 (- 50), None)"
  by (simp add: str_eval flt_eval)

lemma Sprintf_2f_6_5: "Sprintf_2f (Fin False 7318349394477056 (- 50)) = ''6.50''"
  apply (simp add: Sprintf_2f_def)
  apply (simp add: rne_div_def Let_def)
  apply (simp add: decimal_digits.simps digit_char_def)
  done

text \<open>
  C5 (the claim: on success each item's price text is normalized to two fractional
  digits before the receipt reaches \<^verbatim>\<open>calculatePoints\<close>). What the code does on the receipt
  with the price \<^verbatim>\<open>6.5\<close>: validation passes, the formatted text is \<^verbatim>\<open>6.50\<close>, but it is
  assigned to the loop variable only; the receipt that is scored, and whose 12 points
  are stored, still has the price text \<^verbatim>\<open>6.5\<close>.
\<close>

theorem price_text_not_normalized:
  "validate gatorade_receipt = None
   \<and> Sprintf_2f (fst (ParseFloat (Price (hd (Items gatorade_receipt))))) = ''6.50''
   \<and> processReceipts gatorade_receipt = Stored 12
   \<and> calculatePoints gatorade_receipt = Inr 12
   \<and> map Price (Items gatorade_receipt) = [''6.5'']"
proof -
  have v: "validate gatorade_receipt = None"
    by (simp add: validate_def gatorade_receipt_def target_receipt_def ParseFloat_35_35
        ParseFloat_6_5)
  have s: "Sprintf_2f (fst (ParseFloat (Price (hd (Items gatorade_receipt))))) = ''6.50''"
    by (simp add: gatorade_receipt_def ParseFloat_6_5 Sprintf_2f_6_5)
  have r1: "rule1 gatorade_receipt 0 = 6"
    using rule1_Target [of gatorade_receipt]
    by (simp add: gatorade_receipt_def target_receipt_def)
  have r4: "rule4 gatorade_receipt 6 = 6"
    by (simp add: rule4_def gatorade_receipt_def int_eval)
  have r5: "rule5 (Items gatorade_receipt) 6 = 6"
    by (simp add: gatorade_receipt_def trim_eval rem_def)
  have r6: "rule6 gatorade_receipt 6 = Inr 12"
    by (simp add: rule6_def gatorade_receipt_def target_receipt_def index_def Atoi_def
        str_eval int_eval)
  have r7: "rule7 gatorade_receipt 12 = Inr 12"
    using rule7_13_01 [of gatorade_receipt 12]
    by (simp add: gatorade_receipt_def target_receipt_def)
  have t: "Total gatorade_receipt = ''35.35''"
    by (simp add: gatorade_receipt_def target_receipt_def)
  have c: "calculatePoints gatorade_receipt = Inr 12"
    by (simp add: calculatePoints_def t r1 rule2_35_35 rule3_35_35 r4 r5 r6 r7)
  have p: "processReceipts gatorade_receipt = Stored 12"
    by (simp add: processReceipts_def v c)
  have m: "map Price (Items gatorade_receipt) = [''6.5'']"
    by (simp add: gatorade_receipt_def)
  from v s p c m show ?thesis
    by blast
qed


section \<open>Properties of the rounding to float64\<close>

subsection \<open>The length in bits and the exponent\<close>

lemma bitlength_upper: "n < 2 ^ bitlength n"
proof (induction n rule: bitlength.induct)
  case (1 n)
  show ?case
  proof (cases "n = 0")
    case True
    then show ?thesis
      by (simp add: bitlength.simps)
  next
    case False
    from "1.IH" [OF False] have "n div 2 < 2 ^ bitlength (n div 2)" .
    then have "n < 2 * 2 ^ bitlength (n div 2)"
      by linarith
    with False show ?thesis
      by (simp add: bitlength.simps [of n])
  qed
qed

lemma bitlength_lower: "0 < n \<Longrightarrow> 2 ^ (bitlength n - 1) \<le> n"
proof (induction n rule: bitlength.induct)
  case (1 n)
  then have n: "n \<noteq> 0"
    by simp
  have bl: "bitlength n = Suc (bitlength (n div 2))"
    using n by (simp add: bitlength.simps [of n])
  show ?case
  proof (cases "n div 2 = 0")
    case True
    then show ?thesis
      using n bl by (simp add: bitlength.simps [of 0])
  next
    case False
    then have "0 < n div 2"
      by simp
    from "1.IH" [OF n this] have "2 ^ (bitlength (n div 2) - 1) \<le> n div 2" .
    moreover have "0 < bitlength (n div 2)"
      using False by (simp add: bitlength.simps [of "n div 2"])
    ultimately have "2 ^ bitlength (n div 2) \<le> 2 * (n div 2)"
      by (cases "bitlength (n div 2)") simp_all
    then show ?thesis
      using bl by simp
  qed
qed

lemma bitlength_pos: "0 < n \<Longrightarrow> 0 < bitlength n"
  by (simp add: bitlength.simps [of n])

lemma bitlength_real:
  assumes "0 < n"
  shows "2 powi (int (bitlength n) - 1) \<le> real n" and "real n < 2 powi (int (bitlength n))"
proof -
  obtain k where k: "bitlength n = Suc k"
    using bitlength_pos [OF assms] by (cases "bitlength n") simp_all
  have "(2::nat) ^ k \<le> n"
    using bitlength_lower [OF assms] k by simp
  then have "real ((2::nat) ^ k) \<le> real n"
    by (simp only: of_nat_le_iff)
  moreover have "(2::real) powi (int (bitlength n) - 1) = real ((2::nat) ^ k)"
    unfolding k by (simp add: power_int_def)
  ultimately show "2 powi (int (bitlength n) - 1) \<le> real n"
    by (simp only:)
  have "n < (2::nat) ^ bitlength n"
    by (rule bitlength_upper)
  then have "real n < real ((2::nat) ^ bitlength n)"
    by (simp only: of_nat_less_iff)
  moreover have "(2::real) powi (int (bitlength n)) = real ((2::nat) ^ bitlength n)"
    by (simp add: power_int_def)
  ultimately show "real n < 2 powi (int (bitlength n))"
    by (simp only:)
qed

text \<open>An inequality of naturals with a binary scale, as an inequality of reals.\<close>

lemma scale_le_iff:
  "a * 2 ^ nat e \<le> b * 2 ^ nat (- e) \<longleftrightarrow> real a * 2 powi e \<le> real b"
proof (cases "0 \<le> e")
  case True
  then have pw: "(2::real) powi e = 2 ^ nat e" and z: "nat (- e) = 0"
    by (simp_all add: power_int_nonneg_exp)
  have "a * 2 ^ nat e \<le> b \<longleftrightarrow> real (a * 2 ^ nat e) \<le> real b"
    by (simp only: of_nat_le_iff)
  also have "real (a * 2 ^ nat e) = real a * 2 ^ nat e"
    by simp
  finally show ?thesis
    unfolding pw z by simp
next
  case False
  then have pw: "(2::real) powi e = 1 / 2 ^ nat (- e)" and z: "nat e = 0"
    by (simp_all add: power_int_def field_simps)
  have "a \<le> b * 2 ^ nat (- e) \<longleftrightarrow> real a \<le> real (b * 2 ^ nat (- e))"
    by (simp only: of_nat_le_iff)
  also have "real (b * 2 ^ nat (- e)) = real b * 2 ^ nat (- e)"
    by simp
  also have "real a \<le> real b * 2 ^ nat (- e) \<longleftrightarrow> real a * (1 / 2 ^ nat (- e)) \<le> real b"
    by (simp add: field_simps)
  finally show ?thesis
    unfolding pw z by simp
qed

lemma rne_div_lower: "N div D \<le> rne_div N D"
  by (simp add: rne_div_def Let_def)

lemma rne_div_le:
  assumes "0 < D" and "N \<le> B * D"
  shows "rne_div N D \<le> B"
proof (cases "N div D < B")
  case True
  then show ?thesis
    by (simp add: rne_div_def Let_def)
next
  case False
  have "N div D \<le> B"
    using assms by (metis div_le_mono div_mult_self_is_m)
  with False have eq: "N div D = B"
    by simp
  have "N = B * D"
  proof -
    have "B * D \<le> N"
      using eq by (metis div_times_less_eq_dividend)
    with assms(2) show ?thesis by simp
  qed
  then have "N mod D = 0"
    by simp
  with assms(1) eq show ?thesis
    by (simp add: rne_div_def Let_def)
qed

lemma rne_div_pos: "0 < D \<Longrightarrow> D \<le> N \<Longrightarrow> 1 \<le> rne_div N D"
proof -
  assume "0 < D" and "D \<le> N"
  then have "1 \<le> N div D"
    by (simp add: div_greater_zero_iff Suc_leI)
  with rne_div_lower [of N D] show ?thesis
    by linarith
qed

lemma pow2_less_cancel: "(2::real) powi a < 2 powi b \<Longrightarrow> a < b"
proof (rule ccontr)
  assume lt: "(2::real) powi a < 2 powi b" and "\<not> a < b"
  then have "b \<le> a"
    by simp
  then have "(2::real) powi b \<le> 2 powi a"
    by (rule power_int_increasing) simp
  with lt show False
    by simp
qed

lemma pow2_pos: "0 < (2::real) powi a"
  by (simp add: power_int_def)

lemma ratio_lower:
  assumes "0 < p" and "0 < q"
  shows "2 powi (int (bitlength p) - int (bitlength q) - 1) * real q < real p"
proof -
  have "2 powi (int (bitlength p) - int (bitlength q) - 1) * real q
      < 2 powi (int (bitlength p) - int (bitlength q) - 1) * 2 powi (int (bitlength q))"
    using bitlength_real(2) [OF assms(2)] pow2_pos by simp
  also have "\<dots> = 2 powi (int (bitlength p) - 1)"
    using power_int_add [of "2::real" "int (bitlength p) - int (bitlength q) - 1"
        "int (bitlength q)"]
    by simp
  also have "\<dots> \<le> real p"
    by (rule bitlength_real(1) [OF assms(1)])
  finally show ?thesis .
qed

lemma ulp_exp_ge: "- 1074 \<le> ulp_exp p q"
  by (simp add: ulp_exp_def Let_def)

lemma ulp_exp_raw:
  "ulp_exp p q = max (int (bitlength p) - int (bitlength q) - 53) (- 1074)
     \<or> ulp_exp p q = max (int (bitlength p) - int (bitlength q) - 52) (- 1074)
        \<and> real (2 ^ 53 * q) * 2 powi (int (bitlength p) - int (bitlength q) - 53) \<le> real p"
proof -
  let ?e1 = "int (bitlength p) - int (bitlength q) - 53"
  show ?thesis
  proof (cases "2 ^ 53 * (q * 2 ^ nat ?e1) \<le> p * 2 ^ nat (- ?e1)")
    case True
    then have "(2 ^ 53 * q) * 2 ^ nat ?e1 \<le> p * 2 ^ nat (- ?e1)"
      by (simp only: mult.assoc)
    then have "real (2 ^ 53 * q) * 2 powi ?e1 \<le> real p"
      by (simp only: scale_le_iff)
    moreover have "ulp_exp p q = max (?e1 + 1) (- 1074)"
      using True by (simp add: ulp_exp_def Let_def)
    moreover have "?e1 + 1 = int (bitlength p) - int (bitlength q) - 52"
      by simp
    ultimately show ?thesis
      by simp
  next
    case False
    then have "ulp_exp p q = max ?e1 (- 1074)"
      by (simp add: ulp_exp_def Let_def)
    then show ?thesis
      by simp
  qed
qed

lemma ulp_exp_le:
  assumes "0 < p" and "0 < q" and "real p \<le> 2 ^ k * real q"
  shows "ulp_exp p q \<le> int k"
proof -
  let ?d = "int (bitlength p) - int (bitlength q)"
  have "2 powi (?d - 1) * real q < 2 powi (int k) * real q"
    using ratio_lower [OF assms(1,2)] assms(3) by simp
  then have "(2::real) powi (?d - 1) < 2 powi (int k)"
    using assms(2) by simp
  then have "?d - 1 < int k"
    by (rule pow2_less_cancel)
  then show ?thesis
    using ulp_exp_raw [of p q] by auto
qed

lemma ulp_exp_scaled:
  assumes "0 < p" and "0 < q" and "- 1074 < ulp_exp p q"
  shows "real q * 2 powi (ulp_exp p q) \<le> real p"
proof -
  let ?d = "int (bitlength p) - int (bitlength q)"
  from ulp_exp_raw [of p q] show ?thesis
  proof
    assume "ulp_exp p q = max (?d - 53) (- 1074)"
    with assms(3) have e: "ulp_exp p q = ?d - 53"
      by simp
    have "(2::real) powi (?d - 53) \<le> 2 powi (?d - 1)"
      by (rule power_int_increasing) simp_all
    then have "real q * 2 powi (?d - 53) \<le> 2 powi (?d - 1) * real q"
      by (simp add: mult.commute mult_left_mono)
    also have "\<dots> < real p"
      by (rule ratio_lower [OF assms(1,2)])
    finally show ?thesis
      by (simp add: e)
  next
    assume "ulp_exp p q = max (?d - 52) (- 1074)
        \<and> real (2 ^ 53 * q) * 2 powi (?d - 53) \<le> real p"
    with assms(3) have e: "ulp_exp p q = ?d - 52"
      and c: "real (2 ^ 53 * q) * 2 powi (?d - 53) \<le> real p"
      by simp_all
    have "(2::real) powi (?d - 52) = 2 powi (?d - 53) * 2"
      using power_int_add [of "2::real" "?d - 53" 1] by simp
    then have "real q * 2 powi (?d - 52) = real (2 * q) * 2 powi (?d - 53)"
      by simp
    also have "\<dots> \<le> real (2 ^ 53 * q) * 2 powi (?d - 53)"
      using pow2_pos [of "?d - 53"] by (simp add: mult_right_mono)
    also note c
    finally show ?thesis
      by (simp add: e)
  qed
qed

subsection \<open>The rounded value\<close>

lemma round64_zero: "round64 s 0 q = Fin s 0 (- 1074)"
  by (simp add: round64_def)

lemma round64_unfold:
  "0 < p \<Longrightarrow> round64 s p q =
     (if 2 ^ 1024 * q \<le> p then Infinity s
      else if rne_div (p * 2 ^ nat (- ulp_exp p q)) (q * 2 ^ nat (ulp_exp p q)) = 2 ^ 53
        then (if 971 < ulp_exp p q + 1 then Infinity s else Fin s (2 ^ 52) (ulp_exp p q + 1))
        else Fin s (rne_div (p * 2 ^ nat (- ulp_exp p q)) (q * 2 ^ nat (ulp_exp p q)))
               (ulp_exp p q))"
  by (simp add: round64_def Let_def)

lemma round64_Fin:
  assumes "0 < p" and "round64 s p q = Fin s' m e"
  shows "s' = s \<and> - 1074 \<le> e
    \<and> real m * 2 powi e =
        real (rne_div (p * 2 ^ nat (- ulp_exp p q)) (q * 2 ^ nat (ulp_exp p q)))
          * 2 powi (ulp_exp p q)"
proof -
  define e0 where "e0 = ulp_exp p q"
  define m0 where "m0 = rne_div (p * 2 ^ nat (- e0)) (q * 2 ^ nat e0)"
  have ge: "- 1074 \<le> e0"
    unfolding e0_def by (rule ulp_exp_ge)
  have unf: "Fin s' m e =
     (if 2 ^ 1024 * q \<le> p then Infinity s
      else if m0 = 2 ^ 53
        then (if 971 < e0 + 1 then Infinity s else Fin s (2 ^ 52) (e0 + 1))
        else Fin s m0 e0)"
    using round64_unfold [OF assms(1), of s q] assms(2)
    unfolding m0_def e0_def by (simp only:)
  have "s' = s \<and> - 1074 \<le> e \<and> real m * 2 powi e = real m0 * 2 powi e0"
  proof (cases "m0 = 2 ^ 53")
    case True
    with unf have "s' = s" and "m = 2 ^ 52" and "e = e0 + 1"
      by (simp_all split: if_splits)
    moreover have "(2::real) powi (e0 + 1) = 2 powi e0 * 2"
      using power_int_add [of "2::real" e0 1] by simp
    ultimately show ?thesis
      using ge True by simp
  next
    case False
    with unf have "s' = s" and "m = m0" and "e = e0"
      by (simp_all split: if_splits)
    then show ?thesis
      using ge by simp
  qed
  then show ?thesis
    unfolding m0_def e0_def .
qed

lemma round64_le:
  assumes "0 < q" and "real p \<le> 2 ^ k * real q" and "k \<le> 1023"
  shows "\<exists>m e. round64 s p q = Fin s m e \<and> real m * 2 powi e \<le> 2 ^ k \<and> - 1074 \<le> e"
proof (cases "p = 0")
  case True
  then show ?thesis
    by (simp add: round64_zero)
next
  case False
  then have p: "0 < p"
    by simp
  let ?e = "ulp_exp p q"
  let ?N = "p * 2 ^ nat (- ?e)"
  let ?D = "q * 2 ^ nat ?e"
  let ?m = "rne_div ?N ?D"
  let ?B = "(2::nat) ^ nat (int k - ?e)"
  have ek: "?e \<le> int k"
    by (rule ulp_exp_le [OF p assms(1,2)])
  have Breal: "real ?B = 2 powi (int k - ?e)"
    using ek by (simp add: power_int_def)
  have split: "(2::real) powi (int k - ?e) * 2 powi ?e = 2 ^ k"
    using power_int_add [of "2::real" "int k - ?e" ?e] by simp
  have "real p * 2 powi (- ?e) \<le> 2 ^ k * real q * 2 powi (- ?e)"
    using assms(2) pow2_pos [of "- ?e"] by (simp add: mult_right_mono)
  also have "\<dots> = real (?B * q)"
    using power_int_add [of "2::real" "int k" "- ?e"] Breal by simp
  finally have "p * 2 ^ nat (- ?e) \<le> (?B * q) * 2 ^ nat (- (- ?e))"
    by (simp only: scale_le_iff)
  then have ND: "?N \<le> ?B * ?D"
    by (simp add: mult.assoc)
  have D: "0 < ?D"
    using assms(1) by simp
  have mB: "?m \<le> ?B"
    by (rule rne_div_le [OF D ND])
  have small: "\<not> 2 ^ 1024 * q \<le> p"
  proof
    assume "2 ^ 1024 * q \<le> p"
    then have "real (2 ^ 1024 * q) \<le> real p"
      by (simp only: of_nat_le_iff)
    with assms(2) have "2 ^ 1024 * real q \<le> 2 ^ k * real q"
      by simp
    with assms(1) have "(2::real) ^ 1024 \<le> 2 ^ k"
      by simp
    then have "1024 \<le> k"
      by (rule power_le_imp_le_exp [rotated]) simp
    with assms(3) show False
      by simp
  qed
  have e970: "?e \<le> 970" if "?m = 2 ^ 53"
  proof -
    from mB that have "(2::nat) ^ 53 \<le> 2 ^ nat (int k - ?e)"
      by simp
    then have "53 \<le> nat (int k - ?e)"
      by (rule power_le_imp_le_exp [rotated]) simp
    with assms(3) show ?thesis
      by linarith
  qed
  obtain m e where fin: "round64 s p q = Fin s m e"
  proof (cases "?m = 2 ^ 53")
    case True
    with e970 have "\<not> 971 < ?e + 1"
      by simp
    with True small have "round64 s p q = Fin s (2 ^ 52) (?e + 1)"
      by (simp add: round64_unfold [OF p])
    then show ?thesis
      by (rule that)
  next
    case False
    with small have "round64 s p q = Fin s ?m ?e"
      by (simp add: round64_unfold [OF p])
    then show ?thesis
      by (rule that)
  qed
  from round64_Fin [OF p fin] have e: "- 1074 \<le> e"
    and v: "real m * 2 powi e = real ?m * 2 powi ?e"
    by simp_all
  have "real ?m * 2 powi ?e \<le> real ?B * 2 powi ?e"
    using mB pow2_pos [of ?e] by (simp add: mult_right_mono)
  also have "\<dots> = 2 ^ k"
    using Breal split by simp
  finally have "real m * 2 powi e \<le> 2 ^ k"
    using v by simp
  with fin e show ?thesis
    by blast
qed

lemma round64_nonzero:
  assumes "0 < p" and "0 < q" and "real q * 2 powi (- 1074) \<le> real p"
    and "round64 s p q = Fin s' m e"
  shows "m \<noteq> 0"
proof -
  let ?e = "ulp_exp p q"
  let ?N = "p * 2 ^ nat (- ?e)"
  let ?D = "q * 2 ^ nat ?e"
  have scaled: "real q * 2 powi ?e \<le> real p"
  proof (cases "?e = - 1074")
    case True
    with assms(3) show ?thesis
      by (simp only:)
  next
    case False
    with ulp_exp_ge [of p q] have "- 1074 < ?e"
      by simp
    then show ?thesis
      by (rule ulp_exp_scaled [OF assms(1,2)])
  qed
  then have "?D \<le> ?N"
    by (simp only: scale_le_iff)
  moreover have "0 < ?D"
    using assms(2) by simp
  ultimately have "1 \<le> rne_div ?N ?D"
    by (rule rne_div_pos [rotated])
  then have "0 < real (rne_div ?N ?D) * 2 powi ?e"
    using pow2_pos [of ?e] by simp
  with round64_Fin [OF assms(1,4)] have "0 < real m * 2 powi e"
    by simp
  then show ?thesis
    by (cases "m = 0") simp_all
qed

subsection \<open>The remainder by 25\<close>

lemma feq_zero: "feq x (Fin False 0 (- 1074)) \<longleftrightarrow> (\<exists>s e. x = Fin s 0 e)"
  by (cases x) auto

lemma Mod_remainder:
  "M \<noteq> 0 \<Longrightarrow> Mod (Fin s m e) (Fin False M (- 48)) =
     round64 s ((m * 2 ^ nat (e - min e (- 48))) mod (M * 2 ^ nat (- 48 - min e (- 48))))
       (2 ^ nat (- min e (- 48)))"
proof -
  assume "M \<noteq> 0"
  moreover have "nat (min e (- 48)) = 0"
    by simp
  ultimately show ?thesis
    by (simp add: Let_def)
qed

lemma dvd_pos:
  "(25 * 2 ^ 48 dvd m * 2 ^ (j + 48)) = (25 dvd m * 2 ^ (j::nat))" for m :: nat
proof -
  have "m * 2 ^ (j + 48) = (m * 2 ^ j) * 2 ^ 48"
    by (simp only: power_add mult.assoc)
  moreover have "(25 * 2 ^ 48 dvd (m * 2 ^ j) * 2 ^ 48) = (25 dvd m * 2 ^ j)"
    by (rule dvd_times_right_cancel_iff) simp
  ultimately show ?thesis
    by (simp only:)
qed

lemma dvd_mid:
  "j \<le> 48 \<Longrightarrow> (25 * 2 ^ 48 dvd m * 2 ^ (48 - j)) = (25 * 2 ^ j dvd m)" for m :: nat
proof -
  assume "j \<le> 48"
  then have "j + (48 - j) = 48"
    by simp
  then have "(2::nat) ^ 48 = 2 ^ j * 2 ^ (48 - j)"
    by (simp only: power_add [symmetric])
  then have "(25::nat) * 2 ^ 48 = (25 * 2 ^ j) * 2 ^ (48 - j)"
    by (simp only: mult.assoc)
  moreover have "((25 * 2 ^ j) * 2 ^ (48 - j) dvd m * 2 ^ (48 - j)) = (25 * 2 ^ j dvd m)"
    by (rule dvd_times_right_cancel_iff) simp
  ultimately show ?thesis
    by (simp only:)
qed

lemma pow_low: "48 < j \<Longrightarrow> (25::nat) * 2 ^ 48 * 2 ^ (j - 48) = 25 * 2 ^ j"
proof -
  assume "48 < j"
  then have "48 + (j - 48) = j"
    by simp
  then have "(2::nat) ^ 48 * 2 ^ (j - 48) = 2 ^ j"
    by (simp only: power_add [symmetric])
  then show ?thesis
    by (simp only: mult.assoc)
qed

lemma remainder_zero_iff:
  "(m * 2 ^ nat (e - min e (- 48))) mod (25 * 2 ^ 48 * 2 ^ nat (- 48 - min e (- 48))) = 0
     \<longleftrightarrow> (m * 2 ^ nat e) mod (25 * 2 ^ nat (- e)) = (0::nat)"
proof -
  consider (pos) "0 \<le> e" | (mid) "- 48 \<le> e" "e < 0" | (low) "e < - 48"
    by linarith
  then show ?thesis
  proof cases
    case pos
    define j where "j = nat e"
    have "nat (e - min e (- 48)) = j + 48" and "nat (- 48 - min e (- 48)) = 0"
      and "nat e = j" and "nat (- e) = 0"
      using pos by (simp_all add: j_def)
    then show ?thesis
      by (simp only: power_0 mult_1_right mod_eq_0_iff_dvd dvd_pos)
  next
    case mid
    define j where "j = nat (- e)"
    have j48: "j \<le> 48"
      using mid by (simp add: j_def)
    have "nat (e - min e (- 48)) = 48 - j" and "nat (- 48 - min e (- 48)) = 0"
      and "nat e = 0" and "nat (- e) = j"
      using mid by (simp_all add: j_def)
    then show ?thesis
      by (simp only: power_0 mult_1_right mod_eq_0_iff_dvd dvd_mid [OF j48])
  next
    case low
    define j where "j = nat (- e)"
    have j48: "48 < j"
      using low by (simp add: j_def)
    have "nat (e - min e (- 48)) = 0" and "nat (- 48 - min e (- 48)) = j - 48"
      and "nat e = 0" and "nat (- e) = j"
      using low by (simp_all add: j_def)
    then show ?thesis
      by (simp only: power_0 mult_1_right pow_low [OF j48])
  qed
qed

lemma round64_exp_ge: "round64 s p q = Fin s' m e \<Longrightarrow> - 1074 \<le> e"
proof (cases "p = 0")
  case True
  moreover assume "round64 s p q = Fin s' m e"
  ultimately show ?thesis
    by (simp add: round64_zero)
next
  case False
  moreover assume "round64 s p q = Fin s' m e"
  ultimately show ?thesis
    using round64_Fin [of p s q s' m e] by simp
qed

lemma Mod_25_zero_iff:
  assumes "- 1074 \<le> e"
  shows "feq (Mod (Fin s m e) (float64_of_int 25)) (float64_of_int 0)
           \<longleftrightarrow> multiple_of_25 (Fin s m e)"
proof -
  define e0 where "e0 = min e (- 48)"
  define r where "r = (m * 2 ^ nat (e - e0)) mod (25 * 2 ^ 48 * 2 ^ nat (- 48 - e0))"
  define Q :: nat where "Q = 2 ^ nat (- e0)"
  have c25: "float64_of_int 25 = Fin False (25 * 2 ^ 48) (- 48)"
    by (simp add: float64_of_int_25)
  have md: "Mod (Fin s m e) (float64_of_int 25) = round64 s r Q"
    unfolding c25 r_def Q_def e0_def by (rule Mod_remainder) simp
  have mult: "multiple_of_25 (Fin s m e) \<longleftrightarrow> r = 0"
    unfolding r_def e0_def by (simp only: multiple_of_25_def float64.case remainder_zero_iff)
  show ?thesis
  proof (cases "r = 0")
    case True
    then show ?thesis
      by (simp add: md mult round64_zero float64_of_int_0)
  next
    case False
    then have rpos: "0 < r" and r1: "1 \<le> real r"
      by simp_all
    have Qpos: "0 < Q"
      by (simp add: Q_def)
    have "- e0 - 1074 \<le> 0"
      using assms by (simp add: e0_def)
    then have "(2::real) powi (- e0 - 1074) \<le> 2 powi 0"
      by (rule power_int_increasing) simp
    moreover have "real Q = 2 powi (- e0)"
      by (simp add: Q_def e0_def power_int_def)
    moreover have "(2::real) powi (- e0) * 2 powi (- 1074) = 2 powi (- e0 - 1074)"
      using power_int_add [of "2::real" "- e0" "- 1074"] by simp
    ultimately have small: "real Q * 2 powi (- 1074) \<le> real r"
      using r1 by simp
    have "\<not> feq (round64 s r Q) (Fin False 0 (- 1074))"
    proof (cases "round64 s r Q")
      case (Fin s' m' e')
      from round64_nonzero [OF rpos Qpos small Fin] show ?thesis
        by (simp add: Fin)
    qed simp_all
    with False show ?thesis
      by (simp add: md mult float64_of_int_0)
  qed
qed


subsection \<open>Rule 3 and the exact cents\<close>

lemma fmul_100_cases:
  "fmul x (float64_of_int 100) = NaN \<or> (\<exists>s. fmul x (float64_of_int 100) = Infinity s)
     \<or> (\<exists>s m e. fmul x (float64_of_int 100) = Fin s m e \<and> - 1074 \<le> e)"
proof (cases x)
  case (Fin s m e)
  show ?thesis
  proof (cases "fmul x (float64_of_int 100)")
    case (Fin s' m' e')
    then have "- 1074 \<le> e'"
      using \<open>x = Fin s m e\<close> by (simp add: float64_of_int_100 round64_exp_ge)
    with Fin show ?thesis
      by simp
  qed simp_all
qed (simp_all add: float64_of_int_100)

lemma read_literal_trillions:
  "read_literal ''90071992547410.25'' = Some (False, 9007199254741025, 100)"
  by (simp add: str_eval)

lemma ParseFloat_trillions:
  "ParseFloat ''90071992547410.25'' = (Fin False 5764607523034256 (- 6), None)"
  by (simp add: str_eval flt_eval)

lemma rule3_trillions: "rule3 (Fin False 5764607523034256 (- 6), None) 6 = 6"
  by (simp add: rule3_def float64_of_int_100 float64_of_int_25 float64_of_int_0 flt_eval)

text \<open>
  C9 (as stated: when the total parses, rule 3 adds 25 points exactly when the total in
  whole cents is a multiple of 25). The total \<^verbatim>\<open>90071992547410.25\<close> parses and is
  9007199254741025 cents, which is 25 times 360287970189641; but the float64 product
  \<^verbatim>\<open>total*100\<close> is rounded to 9007199254741024, whose remainder by 25 is 24, and rule 3
  adds nothing to the 6 points of rule 1.
\<close>

theorem quarter_multiple_counterexample:
  "snd (ParseFloat (Total (target_receipt\<lparr>Total := ''90071992547410.25''\<rparr>))) = None
   \<and> spec_quarter_multiple (Total (target_receipt\<lparr>Total := ''90071992547410.25''\<rparr>))
   \<and> rule3 (ParseFloat (Total (target_receipt\<lparr>Total := ''90071992547410.25''\<rparr>))) 6 = 6"
  by (simp add: spec_quarter_multiple_def read_literal_trillions ParseFloat_trillions
      rule3_trillions)

text \<open>
  C9 (amended). Rule 3 adds 25 points exactly when the float64 product of the parsed
  total and 100, as rounded, is a finite value that is an integer multiple of 25: the
  test \<^verbatim>\<open>math.Mod(total*100, 25) == 0\<close> is exact on that product, and the product is not
  always the total in cents.
\<close>

theorem quarter_multiple_float:
  "rule3 (ParseFloat (Total r)) points =
     (if multiple_of_25 (fmul (fst (ParseFloat (Total r))) (float64_of_int 100))
      then add64 points 25 else points)"
proof -
  obtain x err where pf: "ParseFloat (Total r) = (x, err)"
    by (cases "ParseFloat (Total r)")
  let ?y = "fmul x (float64_of_int 100)"
  have "feq (Mod ?y (float64_of_int 25)) (float64_of_int 0) \<longleftrightarrow> multiple_of_25 ?y"
    using fmul_100_cases [of x]
  proof (elim disjE exE conjE)
    assume "?y = NaN"
    then show ?thesis
      by (simp add: float64_of_int_25 multiple_of_25_def)
  next
    fix s assume "?y = Infinity s"
    then show ?thesis
      by (simp add: float64_of_int_25 multiple_of_25_def)
  next
    fix s m e assume "?y = Fin s m e" and "- 1074 \<le> e"
    then show ?thesis
      by (simp only: Mod_25_zero_iff)
  qed
  then show ?thesis
    by (simp add: pf rule3_def)
qed


subsection \<open>The sign of the score\<close>

lemma div_add_pred: "0 < D \<Longrightarrow> (a * D + (D - 1)) div D = a" for a D :: nat
proof -
  assume D: "0 < D"
  then have "(a * D + (D - 1)) div D = a + (D - 1) div D"
    by (intro div_mult_self3) simp
  also have "(D - 1) div D = 0"
    using D by (intro div_less) simp
  finally show ?thesis
    by simp
qed

lemma scaled_div_le:
  assumes "real m * 2 powi e \<le> 2 ^ k"
  shows "(m * 2 ^ nat e) div 2 ^ nat (- e) \<le> 2 ^ k"
    and "(m * 2 ^ nat e + (2 ^ nat (- e) - 1)) div 2 ^ nat (- e) \<le> 2 ^ k"
proof -
  let ?D = "(2::nat) ^ nat (- e)"
  have "real m * 2 powi e \<le> real ((2::nat) ^ k)"
    using assms by simp
  then have le: "m * 2 ^ nat e \<le> 2 ^ k * ?D"
    by (simp only: scale_le_iff)
  have D: "0 < ?D"
    by simp
  from le have "(m * 2 ^ nat e) div ?D \<le> (2 ^ k * ?D) div ?D"
    by (rule div_le_mono)
  then show "(m * 2 ^ nat e) div ?D \<le> 2 ^ k"
    using D by simp
  from le have "m * 2 ^ nat e + (?D - 1) \<le> 2 ^ k * ?D + (?D - 1)"
    by simp
  then have "(m * 2 ^ nat e + (?D - 1)) div ?D \<le> (2 ^ k * ?D + (?D - 1)) div ?D"
    by (rule div_le_mono)
  also have "(2 ^ k * ?D + (?D - 1)) div ?D = 2 ^ k"
    using D by (rule div_add_pred)
  finally show "(m * 2 ^ nat e + (?D - 1)) div ?D \<le> 2 ^ k" .
qed

lemma int_of_float64_bounds:
  assumes "real m * 2 powi e \<le> 2 ^ k" and "k < 63"
  shows "0 \<le> int_of_float64 (Fin False m e) \<and> int_of_float64 (Fin False m e) \<le> 2 ^ k"
proof -
  let ?t = "int ((m * 2 ^ nat e) div 2 ^ nat (- e))"
  have "(m * 2 ^ nat e) div 2 ^ nat (- e) \<le> 2 ^ k"
    by (rule scaled_div_le(1) [OF assms(1)])
  then have "?t \<le> int (2 ^ k)"
    by (simp only: of_nat_le_iff)
  then have t: "?t \<le> 2 ^ k"
    by simp
  have "(2::int) ^ k < 2 ^ 63"
    using assms(2) by (simp only: power_strict_increasing_iff one_less_numeral_iff
        semiring_norm)
  with t have "?t < 2 ^ 63"
    by linarith
  moreover have "0 \<le> ?t"
    by simp
  ultimately show ?thesis
    using t by (simp add: int_of_float64_def Let_def)
qed

lemma Ceil_bound:
  assumes "real m * 2 powi e \<le> 2 ^ k" and "k \<le> 1023"
  shows "\<exists>m' e'. Ceil (Fin False m e) = Fin False m' e' \<and> real m' * 2 powi e' \<le> 2 ^ k"
proof -
  let ?n = "(m * 2 ^ nat e + (2 ^ nat (- e) - 1)) div 2 ^ nat (- e)"
  have "?n \<le> 2 ^ k"
    by (rule scaled_div_le(2) [OF assms(1)])
  then have "real ?n \<le> real ((2::nat) ^ k)"
    by (simp only: of_nat_le_iff)
  then have "real ?n \<le> 2 ^ k * real (1::nat)"
    by simp
  from round64_le [OF _ this assms(2), of False] show ?thesis
    by auto
qed

lemma fmul_0_2_bound:
  assumes "real m * 2 powi e \<le> 2 ^ 31"
  shows "\<exists>m' e'. fmul (Fin False m e) const_0_2 = Fin False m' e'
           \<and> real m' * 2 powi e' \<le> 2 ^ 29"
proof -
  let ?C = "7205759403792794 :: nat"
  let ?p = "m * ?C * 2 ^ nat (e + - 55)"
  let ?q = "(2::nat) ^ nat (- (e + - 55))"
  have f: "fmul (Fin False m e) const_0_2 = round64 False ?p ?q"
    by (simp add: const_0_2_eval)
  have C: "real ?C \<le> 2 ^ 53"
    by simp
  define c :: real where "c = 2 powi (- 55)"
  have c4: "2 ^ 53 * c = 1 / 4"
    by (simp add: c_def power_int_minus)
  have cpos: "0 \<le> c"
    by (simp add: c_def)
  have "(2::real) powi (e + - 55) = 2 powi e * c"
    unfolding c_def by (rule power_int_add) simp
  then have "real (m * ?C) * 2 powi (e + - 55) = (real m * 2 powi e) * (real ?C * c)"
    by simp
  also have "\<dots> \<le> 2 ^ 31 * (real ?C * c)"
    using assms cpos by (intro mult_right_mono) simp_all
  also have "\<dots> \<le> 2 ^ 31 * (2 ^ 53 * c)"
    using C cpos by (intro mult_left_mono mult_right_mono) simp_all
  also have "\<dots> = real ((2::nat) ^ 29)"
    unfolding c4 by simp
  finally have "m * ?C * 2 ^ nat (e + - 55) \<le> 2 ^ 29 * 2 ^ nat (- (e + - 55))"
    by (simp only: scale_le_iff)
  then have "real ?p \<le> real (2 ^ 29 * ?q)"
    by (simp only: of_nat_le_iff)
  then have "real ?p \<le> 2 ^ 29 * real ?q"
    by simp
  from round64_le [OF _ this, of False] show ?thesis
    unfolding f by auto
qed

lemma contribution_bounds:
  assumes "real m * 2 powi e \<le> 2 ^ 31"
  shows "0 \<le> int_of_float64 (Ceil (fmul (Fin False m e) const_0_2))
       \<and> int_of_float64 (Ceil (fmul (Fin False m e) const_0_2)) \<le> 2 ^ 29"
proof -
  from fmul_0_2_bound [OF assms] obtain m1 e1
    where f: "fmul (Fin False m e) const_0_2 = Fin False m1 e1"
      and b1: "real m1 * 2 powi e1 \<le> 2 ^ 29"
    by blast
  from Ceil_bound [OF b1] obtain m2 e2
    where c: "Ceil (Fin False m1 e1) = Fin False m2 e2" and b2: "real m2 * 2 powi e2 \<le> 2 ^ 29"
    by auto
  have "0 \<le> int_of_float64 (Fin False m2 e2) \<and> int_of_float64 (Fin False m2 e2) \<le> 2 ^ 29"
    by (rule int_of_float64_bounds [OF b2]) simp
  then show ?thesis
    unfolding f c .
qed

lemma rule5_bounds:
  assumes "\<forall>item\<in>set items. \<exists>m e. ParseFloat (Price item) = (Fin False m e, None)
             \<and> real m * 2 powi e \<le> 2 ^ 31"
    and "0 \<le> points" and "points + int (length items) * 2 ^ 29 < 2 ^ 63"
  shows "points \<le> rule5 items points
       \<and> rule5 items points \<le> points + int (length items) * 2 ^ 29"
  using assms
proof (induction items arbitrary: points)
  case Nil
  then show ?case
    by simp
next
  case (Cons item items)
  from Cons.prems(1) obtain m e
    where pf: "ParseFloat (Price item) = (Fin False m e, None)"
      and v: "real m * 2 powi e \<le> 2 ^ 31"
    by auto
  define c where "c = int_of_float64 (Ceil (fmul (Fin False m e) const_0_2))"
  have c: "0 \<le> c" "c \<le> 2 ^ 29"
    using contribution_bounds [OF v] by (simp_all add: c_def)
  have len: "points + (1 + int (length items)) * 2 ^ 29 < 2 ^ 63"
    using Cons.prems(3) by simp
  have rest: "\<forall>item\<in>set items. \<exists>m e. ParseFloat (Price item) = (Fin False m e, None)
             \<and> real m * 2 powi e \<le> 2 ^ 31"
    using Cons.prems(1) by simp
  have step: "rule5 (item # items) points = rule5 items points
      \<or> rule5 (item # items) points = rule5 items (add64 points c)"
    by (simp add: pf c_def Let_def)
  have a: "add64 points c = points + c"
    using Cons.prems(2) c len by (intro add64_small) (simp_all add: algebra_simps)
  have ih1: "points \<le> rule5 items points
       \<and> rule5 items points \<le> points + int (length items) * 2 ^ 29"
    using Cons.prems(2) len by (intro Cons.IH rest) (simp_all add: algebra_simps)
  have ih2: "points + c \<le> rule5 items (points + c)
       \<and> rule5 items (points + c) \<le> points + c + int (length items) * 2 ^ 29"
    using Cons.prems(2) c len by (intro Cons.IH rest) (simp_all add: algebra_simps)
  from step show ?case
  proof
    assume "rule5 (item # items) points = rule5 items points"
    with ih1 show ?thesis
      by (simp add: algebra_simps)
  next
    assume "rule5 (item # items) points = rule5 items (add64 points c)"
    with ih2 a c show ?thesis
      by (simp add: algebra_simps)
  qed
qed

lemma add64_bounds:
  assumes "0 \<le> p" and "p \<le> B" and "0 \<le> x" and "x \<le> X" and "B + X < 2 ^ 63"
  shows "0 \<le> add64 p x \<and> add64 p x \<le> B + X"
proof -
  have "add64 p x = p + x"
    using assms by (intro add64_small) simp_all
  with assms show ?thesis
    by simp
qed

lemma length_runes: "length (runes s) \<le> length s"
proof (induction s rule: runes.induct)
  case (1 s)
  show ?case
  proof (cases "s = []")
    case True
    then show ?thesis
      by (simp add: runes.simps)
  next
    case False
    obtain r size where d: "DecodeRuneInString s = (r, size)"
      by (cases "DecodeRuneInString s")
    from "1.IH" [OF False d [symmetric] refl]
    have "length (runes (drop size s)) \<le> length s - size"
      by simp
    moreover have "1 \<le> size" and "size \<le> length s"
      using DecodeRuneInString_size [OF False] d by simp_all
    ultimately show ?thesis
      using False d by (simp add: runes.simps [of s])
  qed
qed

lemma count_fold_bounds:
  assumes "0 \<le> c" and "c + int (length xs) < 2 ^ 63"
  shows "c \<le> fold (\<lambda>ch count. if P ch then add64 count 1 else count) xs c
       \<and> fold (\<lambda>ch count. if P ch then add64 count 1 else count) xs c \<le> c + int (length xs)"
  using assms
proof (induction xs arbitrary: c)
  case Nil
  then show ?case
    by simp
next
  case (Cons x xs)
  have a: "add64 c 1 = c + 1"
    using Cons.prems by (intro add64_small) simp_all
  have ih1: "c \<le> fold (\<lambda>ch count. if P ch then add64 count 1 else count) xs c
       \<and> fold (\<lambda>ch count. if P ch then add64 count 1 else count) xs c \<le> c + int (length xs)"
    using Cons.prems by (intro Cons.IH) simp_all
  have ih2: "c + 1 \<le> fold (\<lambda>ch count. if P ch then add64 count 1 else count) xs (c + 1)
       \<and> fold (\<lambda>ch count. if P ch then add64 count 1 else count) xs (c + 1)
            \<le> c + 1 + int (length xs)"
    using Cons.prems by (intro Cons.IH) simp_all
  show ?case
    using ih1 ih2 a by (cases "P x") simp_all
qed

lemma countAlphanumeric_bounds:
  assumes "length s < 2 ^ 31"
  shows "0 \<le> countAlphanumeric s \<and> countAlphanumeric s \<le> int (length s)"
proof -
  let ?P = "\<lambda>ch::nat. (0x61 \<le> ch \<and> ch \<le> 0x7A) \<or> (0x41 \<le> ch \<and> ch \<le> 0x5A)
      \<or> (0x30 \<le> ch \<and> ch \<le> 0x39)"
  have le: "int (length (runes s)) \<le> int (length s)"
    using length_runes [of s] by simp
  have "int (length s) < 2 ^ 31"
    using assms by (simp add: of_nat_less_iff [of _ "2 ^ 31", simplified])
  with le have small: "0 + int (length (runes s)) < 2 ^ 63"
    by simp
  have zero: "(0::int) \<le> 0"
    by simp
  from count_fold_bounds [of 0 "runes s" ?P, OF zero small] le
  show ?thesis
    unfolding countAlphanumeric_def by simp
qed

lemma rule1_bounds:
  assumes "length (Retailer r) < 2 ^ 31"
  shows "0 \<le> rule1 r 0 \<and> rule1 r 0 \<le> 2 ^ 31"
proof -
  have "int (length (Retailer r)) < 2 ^ 31"
    using assms by (simp add: of_nat_less_iff [of _ "2 ^ 31", simplified])
  with countAlphanumeric_bounds [OF assms] show ?thesis
    by (simp add: rule1_def add64_def wrap64_def)
qed

lemma rule2_bounds:
  assumes "0 \<le> p" and "p \<le> B" and "B + 50 < 2 ^ 63"
  shows "0 \<le> rule2 parsed p \<and> rule2 parsed p \<le> B + 50"
  using add64_bounds [OF assms(1,2), of 50 50] assms
  by (cases parsed) (simp add: rule2_def)

lemma rule3_bounds:
  assumes "0 \<le> p" and "p \<le> B" and "B + 25 < 2 ^ 63"
  shows "0 \<le> rule3 parsed p \<and> rule3 parsed p \<le> B + 25"
  using add64_bounds [OF assms(1,2), of 25 25] assms
  by (cases parsed) (simp add: rule3_def)

lemma rule4_bounds:
  assumes "0 \<le> p" and "p \<le> B" and "length (Items r) < 2 ^ 31" and "B + 5 * 2 ^ 31 < 2 ^ 63"
  shows "0 \<le> rule4 r p \<and> rule4 r p \<le> B + 5 * 2 ^ 31"
proof (cases "Items r = []")
  case True
  with assms show ?thesis
    by (simp add: rule4_def)
next
  case False
  let ?n = "int (length (Items r))"
  have n: "0 \<le> ?n" "?n < 2 ^ 31"
    using assms(3) by (simp_all add: of_nat_less_iff [of _ "2 ^ 31", simplified])
  have q: "quo ?n 2 = ?n div 2"
    using False by (simp add: quo_def)
  have h: "0 \<le> ?n div 2" "?n div 2 \<le> 2 ^ 31"
    using n by simp_all
  then have m: "mul64 (?n div 2) 5 = ?n div 2 * 5"
    by (simp add: mul64_def wrap64_def)
  have "0 \<le> add64 p (?n div 2 * 5) \<and> add64 p (?n div 2 * 5) \<le> B + 5 * 2 ^ 31"
    using h assms by (intro add64_bounds) simp_all
  with False show ?thesis
    by (simp add: rule4_def q m)
qed

lemma rule6_indexed:
  assumes "3 \<le> length (Split (PurchaseDate r) (CHR ''-''))"
  shows "rule6 r points = Inr points \<or> rule6 r points = Inr (add64 points 6)"
proof -
  have "index (Split (PurchaseDate r) (CHR ''-'')) 2
      = Inr (Split (PurchaseDate r) (CHR ''-'') ! 2)"
    using assms by (simp add: index_def)
  then show ?thesis
    by (simp add: rule6_def split: prod.splits)
qed

text \<open>
  C3 (amended). For a receipt that the validator accepts, whose purchase date has at
  least three dash-separated fields, whose item prices all parse to finite values with
  a clear sign bit that are at most \<open>2\<^sup>3\<^sup>1\<close>, and whose retailer name and item sequence
  are shorter than \<open>2\<^sup>3\<^sup>1\<close>, \<^verbatim>\<open>calculatePoints\<close> returns, and returns a non-negative
  integer: no rule subtracts and no addition wraps around.
\<close>

theorem accepted_score_nonnegative:
  assumes "validate r = None"
    and "3 \<le> length (Split (PurchaseDate r) (CHR ''-''))"
    and "\<forall>item\<in>set (Items r). \<exists>m e. ParseFloat (Price item) = (Fin False m e, None)
           \<and> real m * 2 powi e \<le> 2 ^ 31"
    and "length (Retailer r) < 2 ^ 31" and "length (Items r) < 2 ^ 31"
  shows "\<exists>p. calculatePoints r = Inr p \<and> 0 \<le> p"
proof -
  define parsed where "parsed = ParseFloat (Total r)"
  define p1 where "p1 = rule1 r 0"
  define p2 where "p2 = rule2 parsed p1"
  define p3 where "p3 = rule3 parsed p2"
  define p4 where "p4 = rule4 r p3"
  define p5 where "p5 = rule5 (Items r) p4"
  let ?n = "int (length (Items r))"
  have n: "0 \<le> ?n" "?n < 2 ^ 31"
    using assms(5) by (simp_all add: of_nat_less_iff [of _ "2 ^ 31", simplified])
  have b1: "0 \<le> p1 \<and> p1 \<le> 2 ^ 31"
    unfolding p1_def by (rule rule1_bounds [OF assms(4)])
  then have b2: "0 \<le> p2 \<and> p2 \<le> 2 ^ 31 + 50"
    unfolding p2_def by (intro rule2_bounds) simp_all
  then have b3: "0 \<le> p3 \<and> p3 \<le> 2 ^ 31 + 50 + 25"
    unfolding p3_def by (intro rule3_bounds) simp_all
  then have b4: "0 \<le> p4 \<and> p4 \<le> 2 ^ 31 + 50 + 25 + 5 * 2 ^ 31"
    unfolding p4_def using assms(5) by (intro rule4_bounds) simp_all
  have "?n * 2 ^ 29 \<le> 2 ^ 31 * 2 ^ 29"
    using n by (intro mult_right_mono) simp_all
  with b4 have room: "p4 + ?n * 2 ^ 29 < 2 ^ 63"
    by simp
  have b5: "p4 \<le> p5 \<and> p5 \<le> p4 + ?n * 2 ^ 29"
    unfolding p5_def using b4 room by (intro rule5_bounds assms(3)) simp_all
  with b4 room have r5: "0 \<le> p5" "p5 < 2 ^ 63 - 16"
    using \<open>?n * 2 ^ 29 \<le> 2 ^ 31 * 2 ^ 29\<close> by simp_all
  have calc: "calculatePoints r = (case rule6 r p5 of Inl p \<Rightarrow> Inl p | Inr points \<Rightarrow> rule7 r points)"
    by (simp add: calculatePoints_def p5_def p4_def p3_def p2_def p1_def parsed_def Let_def)
  have a6: "add64 p5 6 = p5 + 6"
    using r5 by (intro add64_small) simp_all
  from rule6_indexed [OF assms(2), of p5] a6 obtain p6
    where p6: "rule6 r p5 = Inr p6" and b6: "0 \<le> p6" "p6 < 2 ^ 63 - 10"
    using r5 by auto
  have a7: "add64 p6 10 = p6 + 10"
    using b6 by (intro add64_small) simp_all
  from rule7_cases [of r p6] a7 obtain p7
    where p7: "rule7 r p6 = Inr p7" and b7: "0 \<le> p7"
    using b6 by auto
  from calc p6 p7 b7 show ?thesis
    by simp
qed

lemma ParseFloat_neg_100: "ParseFloat ''-100'' = (Fin True 7036874417766400 (- 46), None)"
  by (simp add: str_eval flt_eval)

lemma points_neg_100:
  "int_of_float64 (Ceil (fmul (Fin True 7036874417766400 (- 46)) const_0_2)) = - 20"
  by (simp add: const_0_2_eval int_of_float64_def flt_eval)

text \<open>
  C3 (as stated: for every receipt the validator accepts, \<^verbatim>\<open>calculatePoints\<close> returns a
  non-negative integer). The test receipt with the single item \<^verbatim>\<open>Emils Cheese Pizza\<close> at
  the price \<^verbatim>\<open>-100\<close> is accepted, and rule 5 adds \<^verbatim>\<open>int(math.Ceil(-100 * 0.2))\<close>, which is
  -20: the score is 6 - 20 + 6 = -8.
\<close>

theorem negative_score_counterexample:
  "validate refund_receipt = None \<and> calculatePoints refund_receipt = Inr (- 8)"
proof -
  have v: "validate refund_receipt = None"
    by (simp add: validate_def refund_receipt_def target_receipt_def ParseFloat_35_35
        ParseFloat_neg_100)
  have r1: "rule1 refund_receipt 0 = 6"
    using rule1_Target [of refund_receipt]
    by (simp add: refund_receipt_def target_receipt_def)
  have r4: "rule4 refund_receipt 6 = 6"
    by (simp add: rule4_def refund_receipt_def int_eval)
  have r5: "rule5 (Items refund_receipt) 6 = - 14"
    by (simp add: refund_receipt_def trim_eval rem_def ParseFloat_neg_100 points_neg_100
        add64_def wrap64_def)
  have r6: "rule6 refund_receipt (- 14) = Inr (- 8)"
    by (simp add: rule6_def refund_receipt_def target_receipt_def index_def Atoi_def
        str_eval int_eval)
  have r7: "rule7 refund_receipt (- 8) = Inr (- 8)"
    using rule7_13_01 [of refund_receipt "- 8"]
    by (simp add: refund_receipt_def target_receipt_def)
  have t: "Total refund_receipt = ''35.35''"
    by (simp add: refund_receipt_def target_receipt_def)
  have "calculatePoints refund_receipt = Inr (- 8)"
    by (simp add: calculatePoints_def t r1 rule2_35_35 rule3_35_35 r4 r5 r6 r7)
  with v show ?thesis
    by simp
qed

lemma ParseFloat_6_49: "ParseFloat ''6.49'' = (Fin False 7307090395408630 (- 50), None)"
  by (simp add: str_eval flt_eval)

lemma ParseFloat_1_26: "ParseFloat ''1.26'' = (Fin False 5674535530486825 (- 52), None)"
  by (simp add: str_eval flt_eval)

lemma ParseFloat_3_35: "ParseFloat ''3.35'' = (Fin False 7543529375845581 (- 51), None)"
  by (simp add: str_eval flt_eval)

lemma target_receipt_valid: "validate target_receipt = None"
  by (simp add: validate_def target_receipt_def ParseFloat_35_35 ParseFloat_6_49
      ParseFloat_12_25 ParseFloat_1_26 ParseFloat_3_35 ParseFloat_12_00)

lemma target_receipt_prices:
  "\<forall>item\<in>set (Items target_receipt). \<exists>m e. ParseFloat (Price item) = (Fin False m e, None)
     \<and> real m * 2 powi e \<le> 2 ^ 31"
  by (simp add: target_receipt_def ParseFloat_6_49 ParseFloat_12_25 ParseFloat_1_26
      ParseFloat_3_35 ParseFloat_12_00 power_int_minus)

theorem accepted_score_nonnegative_witness:
  "validate target_receipt = None
   \<and> 3 \<le> length (Split (PurchaseDate target_receipt) (CHR ''-''))
   \<and> length (Retailer target_receipt) < 2 ^ 31 \<and> length (Items target_receipt) < 2 ^ 31
   \<and> (\<exists>p. calculatePoints target_receipt = Inr p \<and> 0 \<le> p)"
proof -
  have d: "3 \<le> length (Split (PurchaseDate target_receipt) (CHR ''-''))"
    by (simp add: target_receipt_def)
  have l1: "length (Retailer target_receipt) < 2 ^ 31"
    by (simp add: target_receipt_def)
  have l2: "length (Items target_receipt) < 2 ^ 31"
    by (simp add: target_receipt_def)
  from accepted_score_nonnegative [OF target_receipt_valid d target_receipt_prices l1 l2]
    target_receipt_valid d l1 l2
  show ?thesis
    by blast
qed

end
